theory Spec2Isabelle
  imports Main
begin

section \<open>JavaScript values, exceptions and the host\<close>

text \<open>
  The Auth SDK (\<^verbatim>\<open>inmapper-auth.esm.js\<close>) is a class whose methods read and write
  the fields of \<^verbatim>\<open>this\<close>, \<^verbatim>\<open>localStorage\<close>, \<^verbatim>\<open>window.location\<close> and the network.
  Values that travel through JSON (the cached user, the reply of the validate
  endpoint) are modelled by \<open>jsval\<close>, with whole numbers for numbers; strings are byte
  strings. Output to the console is not part of the state.
\<close>

datatype jsval =
    JUndefined
  | JNull
  | JBool bool
  | JNum int
  | JStr string
  | JArr "jsval list"
  | JObj "(string \<times> jsval) list"

text \<open>JavaScript truthiness, as used by \<^verbatim>\<open>if (x)\<close>, \<^verbatim>\<open>!x\<close>, \<^verbatim>\<open>a && b\<close>, \<^verbatim>\<open>a || b\<close>.\<close>

fun truthy :: "jsval \<Rightarrow> bool" where
  "truthy JUndefined = False"
| "truthy JNull = False"
| "truthy (JBool b) = b"
| "truthy (JNum n) = (n \<noteq> 0)"
| "truthy (JStr s) = (s \<noteq> [])"
| "truthy (JArr vs) = True"
| "truthy (JObj kvs) = True"

text \<open>A value that is a string or \<^verbatim>\<open>null\<close> (a token, a storage entry): truthy when it
  is a non-empty string.\<close>

fun truthy_str :: "string option \<Rightarrow> bool" where
  "truthy_str None = False"
| "truthy_str (Some s) = (s \<noteq> [])"

text \<open>Template-literal rendering \<^verbatim>\<open>`${x}`\<close> of a string or \<^verbatim>\<open>null\<close>.\<close>

fun render :: "string option \<Rightarrow> string" where
  "render None = ''null''"
| "render (Some s) = s"

datatype exn = TypeError | SyntaxError | StorageError | NetworkError | SecurityError

text \<open>A reply to \<^verbatim>\<open>fetch\<close>: \<open>Response None\<close> is a response whose \<^verbatim>\<open>json()\<close> rejects,
  \<open>Response (Some d)\<close> one whose body parses to \<open>d\<close>.\<close>

datatype response = Response "jsval option"

text \<open>An object with string values (a \<^verbatim>\<open>headers\<close> object): its properties in the order in
  which they were added, each name once.\<close>

type_synonym obj = "(string \<times> string) list"

record request_init =
  ri_method :: "string option"
  ri_headers :: obj
  ri_body :: "string option"

text \<open>
  The host is everything the SDK does not control: what the network answers to the
  \<open>n\<close>-th request (\<open>None\<close>: \<^verbatim>\<open>fetch\<close> rejects), whether the \<open>n\<close>-th access to
  \<^verbatim>\<open>localStorage\<close> throws, the built-ins \<^verbatim>\<open>JSON.parse\<close> (\<open>None\<close>: SyntaxError)
  and \<^verbatim>\<open>JSON.stringify\<close>, and the browser's resolution of a URL reference:
  \<open>resolve origin current u\<close> is the path, query and fragment that \<open>u\<close> names when that
  lies in the page's origin, and \<open>None\<close> when \<open>u\<close> names another origin.
\<close>

record host =
  net :: "nat \<Rightarrow> response option"
  storage_fault :: "nat \<Rightarrow> bool"
  json_parse :: "string \<Rightarrow> jsval option"
  json_stringify :: "jsval \<Rightarrow> string"
  resolve :: "string \<Rightarrow> string \<Rightarrow> string \<Rightarrow> string option"

datatype event =
    Navigate string
  | AuthRequiredHook
  | AuthSuccessHook jsval
  | AuthErrorHook exn
  | AccessDeniedHook jsval
  | DenialView jsval

text \<open>
  The page: \<^verbatim>\<open>localStorage\<close> (\<open>items\<close>, with a count of the accesses made so far),
  the requests handed to \<^verbatim>\<open>fetch\<close>, the current location (\<open>origin\<close>, then \<open>url\<close>: path,
  query and fragment) and what the page did that a user can see (\<open>events\<close>).
\<close>

record page =
  items :: "string \<rightharpoonup> string"
  store_ops :: nat
  requests :: "(string \<times> request_init) list"
  origin :: string
  url :: string
  events :: "event list"

section \<open>The session manager's state\<close>

text \<open>\<^verbatim>\<open>DEFAULT_CONFIG\<close> merged with the caller's configuration. A hook is either
  configured or not; a configured hook is recorded as an event when it is called and
  returns normally.\<close>

record config =
  apiUrl :: string
  loginUrl :: string
  tokenKey :: string
  userKey :: string
  autoRedirect :: bool
  resourceId :: "string option"
  onAuthRequired :: bool
  onAuthSuccess :: bool
  onAuthError :: bool
  onAccessDenied :: bool

definition DEFAULT_CONFIG :: config where
  "DEFAULT_CONFIG = \<lparr>
     apiUrl = ''https://inmapper-otp-api.isohtel.com.tr/api'',
     loginUrl = ''https://inmapper-otp.netlify.app/login'',
     tokenKey = ''inmapper_auth_token'',
     userKey = ''inmapper_auth_user'',
     autoRedirect = True,
     resourceId = None,
     onAuthRequired = False,
     onAuthSuccess = False,
     onAuthError = False,
     onAccessDenied = False \<rparr>"

record inmapper_auth =
  config :: config
  user :: jsval
  token :: "string option"
  initialized :: bool

text \<open>The constructor.\<close>

definition new_auth :: "config \<Rightarrow> inmapper_auth" where
  "new_auth c = \<lparr> config = c, user = JNull, token = None, initialized = False \<rparr>"

section \<open>Computations: state and exceptions\<close>

text \<open>
  A method runs on the instance and the page, and ends with a value or with a thrown
  exception; the state it reached is kept in both cases, as in JavaScript. Calls are
  run one after another, each to its end.
\<close>

type_synonym st = "inmapper_auth \<times> page"
type_synonym 'a js = "st \<Rightarrow> (exn + 'a) \<times> st"

definition js_ret :: "'a \<Rightarrow> 'a js" where
  "js_ret x = (\<lambda>s. (Inr x, s))"

definition js_throw :: "exn \<Rightarrow> 'a js" where
  "js_throw e = (\<lambda>s. (Inl e, s))"

definition js_bind :: "'a js \<Rightarrow> ('a \<Rightarrow> 'b js) \<Rightarrow> 'b js" where
  "js_bind m f = (\<lambda>s. case m s of (Inl e, s') \<Rightarrow> (Inl e, s') | (Inr x, s') \<Rightarrow> f x s')"

definition js_seq :: "unit js \<Rightarrow> 'b js \<Rightarrow> 'b js" where
  "js_seq m k = js_bind m (\<lambda>u. k)"

text \<open>\<^verbatim>\<open>try { m } catch (e) { handler(e) }\<close>. The handlers of the SDK log the error to
  the console and go on.\<close>

definition js_try :: "'a js \<Rightarrow> (exn \<Rightarrow> 'a js) \<Rightarrow> 'a js" where
  "js_try m handler = (\<lambda>s. case m s of (Inl e, s') \<Rightarrow> handler e s' | (Inr x, s') \<Rightarrow> (Inr x, s'))"

definition js_when :: "bool \<Rightarrow> unit js \<Rightarrow> unit js" where
  "js_when b m = (if b then m else js_ret ())"

definition get_this :: "inmapper_auth js" where
  "get_this = (\<lambda>s. (Inr (fst s), s))"

definition get_page :: "page js" where
  "get_page = (\<lambda>s. (Inr (snd s), s))"

definition upd_this :: "(inmapper_auth \<Rightarrow> inmapper_auth) \<Rightarrow> unit js" where
  "upd_this f = (\<lambda>s. (Inr (), (f (fst s), snd s)))"

definition upd_page :: "(page \<Rightarrow> page) \<Rightarrow> unit js" where
  "upd_page f = (\<lambda>s. (Inr (), (fst s, f (snd s))))"

definition emit :: "event \<Rightarrow> unit js" where
  "emit e = upd_page (\<lambda>w. w\<lparr>events := events w @ [e]\<rparr>)"

subsection \<open>Host operations\<close>

text \<open>Every access to \<^verbatim>\<open>localStorage\<close> counts, and throws when the host says so.\<close>

definition storage_access :: "host \<Rightarrow> unit js" where
  "storage_access h = (\<lambda>s.
     let n = store_ops (snd s); s' = (fst s, (snd s)\<lparr>store_ops := Suc n\<rparr>)
     in if storage_fault h n then (Inl StorageError, s') else (Inr (), s'))"

definition getItem :: "host \<Rightarrow> string \<Rightarrow> string option js" where
  "getItem h k = js_seq (storage_access h) (js_bind get_page (\<lambda>w. js_ret (items w k)))"

definition setItem :: "host \<Rightarrow> string \<Rightarrow> string \<Rightarrow> unit js" where
  "setItem h k v = js_seq (storage_access h) (upd_page (\<lambda>w. w\<lparr>items := (items w)(k \<mapsto> v)\<rparr>))"

definition removeItem :: "host \<Rightarrow> string \<Rightarrow> unit js" where
  "removeItem h k = js_seq (storage_access h) (upd_page (\<lambda>w. w\<lparr>items := (items w)(k := None)\<rparr>))"

definition JSON_parse :: "host \<Rightarrow> string \<Rightarrow> jsval js" where
  "JSON_parse h s = (case json_parse h s of None \<Rightarrow> js_throw SyntaxError | Some v \<Rightarrow> js_ret v)"

text \<open>The global \<^verbatim>\<open>fetch\<close>: the request is recorded, then the host answers.\<close>

definition window_fetch :: "host \<Rightarrow> string \<Rightarrow> request_init \<Rightarrow> response js" where
  "window_fetch h u i = js_bind get_page (\<lambda>w.
     js_seq (upd_page (\<lambda>w. w\<lparr>requests := requests w @ [(u, i)]\<rparr>))
       (case net h (length (requests w)) of
          None \<Rightarrow> js_throw NetworkError
        | Some r \<Rightarrow> js_ret r))"

text \<open>\<^verbatim>\<open>response.json()\<close>\<close>

fun response_json :: "response \<Rightarrow> jsval js" where
  "response_json (Response None) = js_throw SyntaxError"
| "response_json (Response (Some d)) = js_ret d"

text \<open>Reading a property \<^verbatim>\<open>v.k\<close>: a TypeError on \<^verbatim>\<open>null\<close> and \<^verbatim>\<open>undefined\<close>; on an
  object the last binding of the key, as \<^verbatim>\<open>JSON.parse\<close> keeps it. The SDK reads only
  \<^verbatim>\<open>valid\<close>, \<^verbatim>\<open>user\<close> and \<^verbatim>\<open>hasResourceAccess\<close>, which no string, number, boolean or
  array has.\<close>

fun member :: "jsval \<Rightarrow> string \<Rightarrow> exn + jsval" where
  "member JUndefined k = Inl TypeError"
| "member JNull k = Inl TypeError"
| "member (JObj kvs) k = (case map_of (rev kvs) k of None \<Rightarrow> Inr JUndefined | Some v \<Rightarrow> Inr v)"
| "member v k = Inr JUndefined"

definition get_prop :: "jsval \<Rightarrow> string \<Rightarrow> jsval js" where
  "get_prop v k = (case member v k of Inl e \<Rightarrow> js_throw e | Inr x \<Rightarrow> js_ret x)"

section \<open>URLs\<close>

text \<open>\<^verbatim>\<open>window.location.pathname\<close>, \<^verbatim>\<open>.search\<close> and \<^verbatim>\<open>.href\<close>, read off the current url.
  An empty query (\<^verbatim>\<open>?\<close> alone) reads as the empty string.\<close>

definition location_pathname :: "page \<Rightarrow> string" where
  "location_pathname w = takeWhile (\<lambda>c. c \<noteq> CHR ''?'' \<and> c \<noteq> CHR ''#'') (url w)"

definition location_search :: "page \<Rightarrow> string" where
  "location_search w =
     (let q = takeWhile (\<lambda>c. c \<noteq> CHR ''#'')
                (dropWhile (\<lambda>c. c \<noteq> CHR ''?'' \<and> c \<noteq> CHR ''#'') (url w))
      in if q = ''?'' then [] else q)"

definition location_href :: "page \<Rightarrow> string" where
  "location_href w = origin w @ url w"

text \<open>A reference that begins with one slash, and not with two (a backslash counts as a
  slash), names a path of the page's own origin.\<close>

definition plain_path :: "string \<Rightarrow> bool" where
  "plain_path u =
     (case u of
        [] \<Rightarrow> False
      | c # cs \<Rightarrow> c = CHR ''/''
          \<and> (case cs of [] \<Rightarrow> True | d # ds \<Rightarrow> d \<noteq> CHR ''/'' \<and> d \<noteq> CHR 0x5C))"

text \<open>\<^verbatim>\<open>window.history.replaceState({}, title, u)\<close>. Nothing is loaded. A path of the
  page's own origin becomes the visible url as it is written (the SDK passes the
  location's own path and what is left of its query, which the browser has already
  put in normal form). Any other reference is resolved by the browser: one that
  begins with two slashes names a host, and when the result leaves the page's origin
  \<^verbatim>\<open>replaceState\<close> throws a SecurityError.\<close>

definition replaceState :: "host \<Rightarrow> string \<Rightarrow> unit js" where
  "replaceState h u =
     js_bind get_page (\<lambda>w.
       if plain_path u then upd_page (\<lambda>w. w\<lparr>url := u\<rparr>)
       else (case resolve h (origin w) (url w) u of
               None \<Rightarrow> js_throw SecurityError
             | Some u' \<Rightarrow> upd_page (\<lambda>w. w\<lparr>url := u'\<rparr>)))"

text \<open>\<^verbatim>\<open>window.location.href = u\<close>\<close>

definition navigate :: "string \<Rightarrow> unit js" where
  "navigate u = emit (Navigate u)"

subsection \<open>\<^verbatim>\<open>URLSearchParams\<close>\<close>

definition hexval :: "char \<Rightarrow> nat option" where
  "hexval c =
     (let n = (of_char c :: nat)
      in if 48 \<le> n \<and> n \<le> 57 then Some (n - 48)
         else if 65 \<le> n \<and> n \<le> 70 then Some (n - 55)
         else if 97 \<le> n \<and> n \<le> 102 then Some (n - 87)
         else None)"

fun percent_decode :: "string \<Rightarrow> string" where
  "percent_decode (c # h1 # h2 # cs) =
     (if c = CHR ''%'' then
        (case (hexval h1, hexval h2) of
           (Some a, Some b) \<Rightarrow> char_of (16 * a + b) # percent_decode cs
         | _ \<Rightarrow> c # percent_decode (h1 # h2 # cs))
      else c # percent_decode (h1 # h2 # cs))"
| "percent_decode cs = cs"

text \<open>The bytes are then read as UTF-8. A byte sequence that is not UTF-8 is replaced
  by U+FFFD: one replacement for a lead byte with the continuation bytes that fit
  it, after which reading goes on at the byte that did not fit. Strings being byte
  strings, the text read is written in UTF-8 again.\<close>

definition FFFD :: string where
  "FFFD = [CHR 0xEF, CHR 0xBF, CHR 0xBD]"

definition in_range :: "nat \<Rightarrow> nat \<Rightarrow> char \<Rightarrow> bool" where
  "in_range lo hi c = (lo \<le> (of_char c :: nat) \<and> (of_char c :: nat) \<le> hi)"

fun utf8_decode :: "string \<Rightarrow> string" where
  "utf8_decode [] = []"
| "utf8_decode (b # bs) =
     (let n = (of_char b :: nat) in
      if n < 128 then b # utf8_decode bs
      else if 194 \<le> n \<and> n \<le> 223 then
        (case bs of
           [] \<Rightarrow> FFFD
         | c # cs \<Rightarrow>
             if in_range 128 191 c then b # c # utf8_decode cs
             else FFFD @ utf8_decode (c # cs))
      else if 224 \<le> n \<and> n \<le> 239 then
        (case bs of
           [] \<Rightarrow> FFFD
         | c # cs \<Rightarrow>
             if in_range (if n = 224 then 160 else 128) (if n = 237 then 159 else 191) c then
               (case cs of
                  [] \<Rightarrow> FFFD
                | d # ds \<Rightarrow>
                    if in_range 128 191 d then b # c # d # utf8_decode ds
                    else FFFD @ utf8_decode (d # ds))
             else FFFD @ utf8_decode (c # cs))
      else if 240 \<le> n \<and> n \<le> 244 then
        (case bs of
           [] \<Rightarrow> FFFD
         | c # cs \<Rightarrow>
             if in_range (if n = 240 then 144 else 128) (if n = 244 then 143 else 191) c then
               (case cs of
                  [] \<Rightarrow> FFFD
                | d # ds \<Rightarrow>
                    if in_range 128 191 d then
                      (case ds of
                         [] \<Rightarrow> FFFD
                       | e # es \<Rightarrow>
                           if in_range 128 191 e then b # c # d # e # utf8_decode es
                           else FFFD @ utf8_decode (e # es))
                    else FFFD @ utf8_decode (d # ds))
             else FFFD @ utf8_decode (c # cs))
      else FFFD @ utf8_decode bs)"

text \<open>A name or a value of a query string: \<^verbatim>\<open>+\<close> is a space, percent escapes are
  bytes, and the bytes are read as UTF-8.\<close>

definition form_decode :: "string \<Rightarrow> string" where
  "form_decode s =
     utf8_decode (percent_decode (map (\<lambda>c. if c = CHR ''+'' then CHR '' '' else c) s))"

fun split_on :: "char \<Rightarrow> string \<Rightarrow> string list" where
  "split_on d [] = [[]]"
| "split_on d (c # cs) =
     (if c = d then [] # split_on d cs
      else (case split_on d cs of [] \<Rightarrow> [[c]] | x # xs \<Rightarrow> (c # x) # xs))"

definition parse_pair :: "string \<Rightarrow> string \<times> string" where
  "parse_pair seg =
     (form_decode (takeWhile (\<lambda>c. c \<noteq> CHR ''='') seg),
      form_decode (drop 1 (dropWhile (\<lambda>c. c \<noteq> CHR ''='') seg)))"

text \<open>\<^verbatim>\<open>new URLSearchParams(search)\<close>: one leading \<^verbatim>\<open>?\<close> is dropped, the rest is split at
  \<^verbatim>\<open>&\<close>, empty pieces are skipped, each piece is split at its first \<^verbatim>\<open>=\<close> and both
  halves are decoded.\<close>

definition URLSearchParams :: "string \<Rightarrow> (string \<times> string) list" where
  "URLSearchParams search =
     map parse_pair
       (filter (\<lambda>seg. seg \<noteq> [])
          (split_on CHR ''&'' (case search of [] \<Rightarrow> [] | c # cs \<Rightarrow> if c = CHR ''?'' then cs else c # cs)))"

text \<open>\<^verbatim>\<open>params.get(name)\<close>: the value of the first pair of that name, or \<^verbatim>\<open>null\<close>.\<close>

definition usp_get :: "(string \<times> string) list \<Rightarrow> string \<Rightarrow> string option" where
  "usp_get params name = map_of params name"

subsection \<open>The two regular-expression replacements of the callback interceptor\<close>

text \<open>\<^verbatim>\<open>s.replace(/[?&]token=[^&]+/, '')\<close>: the leftmost place where \<^verbatim>\<open>?\<close> or \<^verbatim>\<open>&\<close> is
  followed by \<^verbatim>\<open>token=\<close> and at least one character other than \<^verbatim>\<open>&\<close>; the match runs
  up to the next \<^verbatim>\<open>&\<close> or the end, and is deleted.\<close>

fun replace_token :: "string \<Rightarrow> string" where
  "replace_token [] = []"
| "replace_token (c # cs) =
     (if (c = CHR ''?'' \<or> c = CHR ''&'') \<and> take 6 cs = ''token=''
         \<and> takeWhile (\<lambda>x. x \<noteq> CHR ''&'') (drop 6 cs) \<noteq> []
      then dropWhile (\<lambda>x. x \<noteq> CHR ''&'') (drop 6 cs)
      else c # replace_token cs)"

text \<open>\<^verbatim>\<open>s.replace(/^&/, '?')\<close>\<close>

fun replace_leading_amp :: "string \<Rightarrow> string" where
  "replace_leading_amp [] = []"
| "replace_leading_amp (c # cs) = (if c = CHR ''&'' then CHR ''?'' # cs else c # cs)"

subsection \<open>\<^verbatim>\<open>encodeURIComponent\<close>\<close>

definition unreserved :: "char \<Rightarrow> bool" where
  "unreserved c =
     (let n = (of_char c :: nat)
      in (65 \<le> n \<and> n \<le> 90) \<or> (97 \<le> n \<and> n \<le> 122) \<or> (48 \<le> n \<and> n \<le> 57)
         \<or> c \<in> set ''-_.!~*'' \<or> c = CHR 0x27 \<or> c = CHR ''('' \<or> c = CHR '')'')"

definition hexdigit :: "nat \<Rightarrow> char" where
  "hexdigit n = ''0123456789ABCDEF'' ! (n mod 16)"

definition encodeURIComponent :: "string \<Rightarrow> string" where
  "encodeURIComponent s =
     concat (map (\<lambda>c. if unreserved c then [c]
                      else [CHR ''%'', hexdigit ((of_char c :: nat) div 16), hexdigit (of_char c)]) s)"

subsection \<open>Numbers and lists as text\<close>

text \<open>The decimal digits of a number, and \<^verbatim>\<open>xs.join(sep)\<close>.\<close>

fun show_nat :: "nat \<Rightarrow> string" where
  "show_nat n =
     (if n < 10 then [''0123456789'' ! n]
      else show_nat (n div 10) @ [''0123456789'' ! (n mod 10)])"

fun join_with :: "string \<Rightarrow> string list \<Rightarrow> string" where
  "join_with sep [] = []"
| "join_with sep [x] = x"
| "join_with sep (x # y # ys) = x @ sep @ join_with sep (y # ys)"

section \<open>The session manager\<close>

text \<open>\<^verbatim>\<open>_saveToStorage\<close>: each slot is written only when its value is truthy; a storage
  error is caught.\<close>

definition saveToStorage :: "host \<Rightarrow> unit js" where
  "saveToStorage h = js_try
     (js_bind get_this (\<lambda>a.
        js_seq (js_when (truthy_str (token a)) (setItem h (tokenKey (config a)) (render (token a))))
               (js_when (truthy (user a))
                  (setItem h (userKey (config a)) (json_stringify h (user a))))))
     (\<lambda>error. js_ret ())"

text \<open>\<^verbatim>\<open>_loadFromStorage\<close>\<close>

definition loadFromStorage :: "host \<Rightarrow> unit js" where
  "loadFromStorage h = js_try
     (js_bind get_this (\<lambda>a.
        js_bind (getItem h (tokenKey (config a))) (\<lambda>t.
        js_seq (upd_this (\<lambda>a. a\<lparr>token := t\<rparr>))
       (js_bind (getItem h (userKey (config a))) (\<lambda>userJson.
        case userJson of
          None \<Rightarrow> upd_this (\<lambda>a. a\<lparr>user := JNull\<rparr>)
        | Some j \<Rightarrow>
            if j = [] then upd_this (\<lambda>a. a\<lparr>user := JNull\<rparr>)
            else js_bind (JSON_parse h j) (\<lambda>v. upd_this (\<lambda>a. a\<lparr>user := v\<rparr>)))))))
     (\<lambda>error. js_ret ())"

text \<open>\<^verbatim>\<open>_clearAuth\<close>\<close>

definition clearAuth :: "host \<Rightarrow> unit js" where
  "clearAuth h =
     js_seq (upd_this (\<lambda>a. a\<lparr>token := None\<rparr>))
    (js_seq (upd_this (\<lambda>a. a\<lparr>user := JNull\<rparr>))
    (js_try
       (js_bind get_this (\<lambda>a.
          js_seq (removeItem h (tokenKey (config a))) (removeItem h (userKey (config a)))))
       (\<lambda>error. js_ret ())))"

text \<open>\<^verbatim>\<open>_handleCallbackToken\<close>. The call of \<^verbatim>\<open>replaceState\<close> is not inside a
  \<^verbatim>\<open>try\<close>.\<close>

definition handleCallbackToken :: "host \<Rightarrow> unit js" where
  "handleCallbackToken h =
     js_bind get_page (\<lambda>w.
       let urlParams = URLSearchParams (location_search w);
           tokenFromUrl = usp_get urlParams ''token''
       in if truthy_str tokenFromUrl then
            js_seq (upd_this (\<lambda>a. a\<lparr>token := tokenFromUrl\<rparr>))
           (js_seq (saveToStorage h)
           (js_bind get_page (\<lambda>w.
              let cleanUrl = location_pathname w
                    @ replace_leading_amp (replace_token (location_search w))
              in replaceState h (if cleanUrl \<noteq> [] then cleanUrl else location_pathname w))))
          else js_ret ())"

text \<open>\<^verbatim>\<open>init\<close>\<close>

definition init :: "host \<Rightarrow> unit js" where
  "init h =
     js_bind get_this (\<lambda>a.
       if initialized a then js_ret ()
       else js_seq (handleCallbackToken h)
           (js_seq (loadFromStorage h)
           (upd_this (\<lambda>a. a\<lparr>initialized := True\<rparr>))))"

text \<open>\<^verbatim>\<open>login\<close>\<close>

definition login :: "string option \<Rightarrow> unit js" where
  "login callbackUrl =
     js_bind get_this (\<lambda>a.
     js_bind get_page (\<lambda>w.
       let callback = (case callbackUrl of
                         None \<Rightarrow> location_href w
                       | Some c \<Rightarrow> if c \<noteq> [] then c else location_href w)
       in navigate (loginUrl (config a) @ ''?callback='' @ encodeURIComponent callback)))"

text \<open>\<^verbatim>\<open>_redirectToLogin\<close> and \<^verbatim>\<open>_handleAccessDenied\<close>. The default denial replaces the
  page's body by a fixed view that names the user.\<close>

definition redirectToLogin :: "unit js" where
  "redirectToLogin =
     js_bind get_this (\<lambda>a.
       if onAuthRequired (config a) then
         js_seq (emit AuthRequiredHook)
                (if \<not> autoRedirect (config a) then js_ret () else login None)
       else login None)"

definition handleAccessDenied :: "jsval \<Rightarrow> unit js" where
  "handleAccessDenied u =
     js_bind get_this (\<lambda>a.
       if onAccessDenied (config a) then emit (AccessDeniedHook u)
       else emit (DenialView u))"

text \<open>The body of the validate request: \<^verbatim>\<open>{ token }\<close>, with \<^verbatim>\<open>resource\<close> added when a
  resource is given.\<close>

fun str_val :: "string option \<Rightarrow> jsval" where
  "str_val None = JNull"
| "str_val (Some s) = JStr s"

definition validate_body :: "string option \<Rightarrow> string option \<Rightarrow> jsval" where
  "validate_body t resource =
     (if truthy_str resource then JObj [(''token'', str_val t), (''resource'', str_val resource)]
      else JObj [(''token'', str_val t)])"

definition post_json :: "string \<Rightarrow> request_init" where
  "post_json b = \<lparr> ri_method = Some ''POST'',
                   ri_headers = [(''Content-Type'', ''application/json'')],
                   ri_body = Some b \<rparr>"

text \<open>\<^verbatim>\<open>getUser(forceRefresh, resourceId)\<close>\<close>

definition getUser :: "host \<Rightarrow> bool \<Rightarrow> string option \<Rightarrow> jsval js" where
  "getUser h forceRefresh resource =
     js_seq (init h)
    (js_bind get_this (\<lambda>a.
       if \<not> truthy_str (token a) then js_ret JNull
       else if truthy (user a) \<and> \<not> forceRefresh \<and> \<not> truthy_str resource then js_ret (user a)
       else js_try
         (js_bind (window_fetch h (apiUrl (config a) @ ''/auth/validate'')
                     (post_json (json_stringify h (validate_body (token a) resource)))) (\<lambda>resp.
          js_bind (response_json resp) (\<lambda>data.
          js_bind (get_prop data ''valid'') (\<lambda>valid.
          js_bind (if truthy valid then get_prop data ''user'' else js_ret valid) (\<lambda>ok.
            if truthy ok then
              js_bind (get_prop data ''user'') (\<lambda>u.
              js_seq (upd_this (\<lambda>a. a\<lparr>user := u\<rparr>))
             (js_seq (saveToStorage h)
             (js_bind get_this (\<lambda>a.
              js_seq (js_when (onAuthSuccess (config a)) (emit (AuthSuccessHook (user a))))
                (if truthy_str resource then
                   js_bind (get_prop data ''hasResourceAccess'') (\<lambda>access.
                     js_ret (JObj [(''user'', user a), (''hasResourceAccess'', access)]))
                 else js_ret (user a))))))
            else js_seq (clearAuth h) (js_ret JNull))))))
         (\<lambda>error.
            js_bind get_this (\<lambda>a.
              js_seq (js_when (onAuthError (config a)) (emit (AuthErrorHook error)))
                     (js_ret JNull)))))"

text \<open>\<^verbatim>\<open>protect(options)\<close>; the argument is \<^verbatim>\<open>options.resourceId\<close>.\<close>

definition protect :: "host \<Rightarrow> string option \<Rightarrow> jsval js" where
  "protect h options_resourceId =
     js_seq (init h)
    (js_bind get_this (\<lambda>a.
     js_bind (getUser h False (if truthy_str options_resourceId then options_resourceId
                              else resourceId (config a))) (\<lambda>result.
       if \<not> truthy result then js_seq redirectToLogin (js_ret JNull)
       else
         js_bind (get_prop result ''hasResourceAccess'') (\<lambda>access.
           if access = JBool False then
             js_bind (get_prop result ''user'') (\<lambda>u.
               js_seq (handleAccessDenied u) (js_ret JNull))
           else
             js_bind (get_prop result ''user'') (\<lambda>u.
               js_ret (if truthy u then u else result))))))"

text \<open>\<^verbatim>\<open>isAuthenticated\<close>, \<^verbatim>\<open>getToken\<close>, \<^verbatim>\<open>setToken\<close>\<close>

definition isAuthenticated :: "host \<Rightarrow> bool js" where
  "isAuthenticated h =
     js_seq (init h) (js_bind (getUser h False None) (\<lambda>u. js_ret (truthy u)))"

definition getToken :: "string option js" where
  "getToken = js_bind get_this (\<lambda>a. js_ret (token a))"

definition setToken :: "host \<Rightarrow> string option \<Rightarrow> unit js" where
  "setToken h t =
     js_seq (upd_this (\<lambda>a. a\<lparr>token := t\<rparr>))
    (js_seq (upd_this (\<lambda>a. a\<lparr>user := JNull\<rparr>))
            (saveToStorage h))"

text \<open>\<^verbatim>\<open>logout(redirect)\<close>\<close>

definition logout :: "host \<Rightarrow> bool \<Rightarrow> unit js" where
  "logout h redirect =
     js_bind get_this (\<lambda>a.
     js_seq (js_when (truthy_str (token a))
               (js_try
                  (js_bind (window_fetch h (apiUrl (config a) @ ''/auth/logout'')
                              (post_json (json_stringify h (JObj [(''token'', str_val (token a))]))))
                     (\<lambda>resp. js_ret ()))
                  (\<lambda>error. js_ret ())))
    (js_seq (clearAuth h)
            (js_when redirect (login None))))"

text \<open>
  \<^verbatim>\<open>fetch(url, options)\<close>. The caller's \<^verbatim>\<open>options.headers\<close> may be absent, a plain
  object, a \<^verbatim>\<open>Headers\<close> instance or an array of name and value pairs. Spreading it
  (\<^verbatim>\<open>{...options.headers}\<close>) copies its own enumerable properties: those of a plain
  object; none of a \<^verbatim>\<open>Headers\<close> instance; of an array its indices, each with the pair
  as value, which reads \<^verbatim>\<open>name,value\<close> as a string.
\<close>

datatype headers_init =
    NoHeaders
  | HeadersObject obj
  | HeadersInstance obj
  | HeadersPairs "(string \<times> string) list"

fun spread :: "headers_init \<Rightarrow> obj" where
  "spread NoHeaders = []"
| "spread (HeadersObject kvs) = kvs"
| "spread (HeadersInstance kvs) = []"
| "spread (HeadersPairs ps) =
     map (\<lambda>ip. (show_nat (fst ip), fst (snd ip) @ '','' @ snd (snd ip))) (enumerate 0 ps)"

text \<open>\<^verbatim>\<open>{...o, k: v}\<close>: the property \<open>k\<close> is replaced where it stands, or added at the
  end. Names are compared as they are written.\<close>

definition obj_set :: "obj \<Rightarrow> string \<Rightarrow> string \<Rightarrow> obj" where
  "obj_set kvs k v =
     (if k \<in> fst ` set kvs then map (\<lambda>kv. if fst kv = k then (k, v) else kv) kvs
      else kvs @ [(k, v)])"

record fetch_options =
  o_method :: "string option"
  o_headers :: headers_init
  o_body :: "string option"

definition fetch :: "host \<Rightarrow> string \<Rightarrow> fetch_options \<Rightarrow> response js" where
  "fetch h u options =
     js_bind get_this (\<lambda>a.
       window_fetch h u
         \<lparr> ri_method = o_method options,
           ri_headers = obj_set (spread (o_headers options)) ''Authorization''
                          (''Bearer '' @ render (token a)),
           ri_body = o_body options \<rparr>)"

text \<open>
  What a request carries under a header name, once the transport has read the
  \<^verbatim>\<open>headers\<close> object into a \<^verbatim>\<open>Headers\<close> list: header names do not distinguish the case
  of letters, and the values given under one name are joined by a comma and a space,
  in the order of the object.
\<close>

definition ascii_lower :: "char \<Rightarrow> char" where
  "ascii_lower c =
     (case map_of (zip ''ABCDEFGHIJKLMNOPQRSTUVWXYZ'' ''abcdefghijklmnopqrstuvwxyz'') c of
        None \<Rightarrow> c
      | Some l \<Rightarrow> l)"

definition sent_header :: "obj \<Rightarrow> string \<Rightarrow> string option" where
  "sent_header hs name =
     (case filter (\<lambda>kv. map ascii_lower (fst kv) = map ascii_lower name) hs of
        [] \<Rightarrow> None
      | kvs \<Rightarrow> Some (join_with '', '' (map snd kvs)))"

text \<open>\<^verbatim>\<open>redirectTo(url)\<close>\<close>

definition redirectTo :: "string \<Rightarrow> unit js" where
  "redirectTo u =
     js_bind get_this (\<lambda>a.
       if truthy_str (token a) then
         navigate (u @ (if CHR ''?'' \<in> set u then ''&'' else ''?'') @ ''token=''
                     @ encodeURIComponent (render (token a)))
       else navigate u)"

text \<open>\<^verbatim>\<open>hasPermission(resourceId)\<close>; \<^verbatim>\<open>result?.hasResourceAccess\<close> is \<^verbatim>\<open>undefined\<close> when the
  result is \<^verbatim>\<open>null\<close>.\<close>

definition opt_member :: "jsval \<Rightarrow> string \<Rightarrow> jsval" where
  "opt_member v k = (case member v k of Inl e \<Rightarrow> JUndefined | Inr x \<Rightarrow> x)"

definition hasPermission :: "host \<Rightarrow> string option \<Rightarrow> bool js" where
  "hasPermission h resource =
     js_bind (getUser h True resource) (\<lambda>result.
       js_ret (opt_member result ''hasResourceAccess'' = JBool True))"

section \<open>The OTP entry form\<close>

text \<open>
  The \<^verbatim>\<open>VerifyOTP\<close> component: six digit slots, and the calls made to
  \<^verbatim>\<open>authApi.verifyOTP(email, code, callbackUrl)\<close>. What the component does once the
  call has answered (storing the reply, leaving the page, clearing the slots) is not
  part of this model. Each handler sees the state of the last render.
\<close>

record verify_otp =
  email :: string
  callbackUrl :: "string option"
  otp :: "string list"
  error :: string
  loading :: bool
  focus :: "nat option"
  verify_calls :: "(string \<times> string \<times> string option) list"

text \<open>\<^verbatim>\<open>\d\<close>\<close>

definition is_digit :: "char \<Rightarrow> bool" where
  "is_digit c = (48 \<le> (of_char c :: nat) \<and> (of_char c :: nat) \<le> 57)"

text \<open>\<^verbatim>\<open>arr[i] = v\<close> on a copy of the array; past the end the array grows, the skipped
  slots reading as empty.\<close>

definition array_set :: "string list \<Rightarrow> nat \<Rightarrow> string \<Rightarrow> string list" where
  "array_set xs i v =
     (if i < length xs then xs[i := v] else xs @ replicate (i - length xs) [] @ [v])"

definition handleVerify :: "string \<Rightarrow> verify_otp \<Rightarrow> verify_otp" where
  "handleVerify code s =
     (if length code \<noteq> 6 then s
      else s\<lparr> loading := True, error := [],
              verify_calls := verify_calls s @ [(email s, code, callbackUrl s)] \<rparr>)"


text \<open>\<^verbatim>\<open>digits.forEach((digit, i) => { if (i < 6) newOtp[i] = digit })\<close>\<close>

fun fill_from :: "nat \<Rightarrow> string \<Rightarrow> string list \<Rightarrow> string list" where
  "fill_from i [] xs = xs"
| "fill_from i (d # ds) xs = fill_from (Suc i) ds (if i < 6 then array_set xs i [d] else xs)"


text \<open>
  \<^verbatim>\<open>handleKeyDown(index, e)\<close>, for the key \<^verbatim>\<open>e.key\<close> with \<^verbatim>\<open>e.ctrlKey\<close> and
  \<^verbatim>\<open>e.metaKey\<close>. Backspace in an empty slot moves the focus back. Ctrl or Cmd with
  \<^verbatim>\<open>v\<close> reads the clipboard (\<open>clipboard\<close> is the text that
  \<^verbatim>\<open>navigator.clipboard.readText()\<close> resolves to, \<open>None\<close> when the clipboard cannot be
  read) and then does what the paste handler does; when the clipboard cannot be read,
  nothing more happens.
\<close>

definition handleKeyDown ::
  "nat \<Rightarrow> string \<Rightarrow> bool \<Rightarrow> bool \<Rightarrow> string option \<Rightarrow> verify_otp \<Rightarrow> verify_otp" where
  "handleKeyDown index key ctrlKey metaKey clipboard s =
     (let s1 = (if key = ''Backspace''
                   \<and> (index < length (otp s) \<longrightarrow> otp s ! index = []) \<and> index > 0
                then s\<lparr> focus := Some (index - 1) \<rparr> else s)
      in if key = ''v'' \<and> (ctrlKey \<or> metaKey) then
           (case clipboard of
              None \<Rightarrow> s1
            | Some text \<Rightarrow>
                let digits = take 6 (filter is_digit text);
                    newOtp = fill_from 0 digits (otp s1);
                    s2 = s1\<lparr> otp := newOtp \<rparr>
                in if length digits = 6 then handleVerify (concat newOtp) s2 else s2)
         else s1)"

section \<open>A host and pages to run the model on\<close>

text \<open>
  The theorems below hold for every host. To run the model on concrete inputs, this
  host never fails on storage, writes JSON without escapes (enough for the values
  used here), and parses the one text that the examples keep in storage; the network
  is a parameter. It resolves a reference that begins with two slashes by comparing
  the host it names, as written, with the host of the origin; an empty reference
  names the current url without its fragment, and one that begins with \<^verbatim>\<open>?\<close> the
  current path with that query. No other reference is resolved in the examples.
\<close>

definition example_resolve :: "string \<Rightarrow> string \<Rightarrow> string \<Rightarrow> string option" where
  "example_resolve org current u =
     (if take 2 u = ''//'' then
        (let named = takeWhile (\<lambda>c. c \<notin> set ''/?#'') (drop 2 u);
             rest = dropWhile (\<lambda>c. c \<notin> set ''/?#'') (drop 2 u)
         in if dropWhile (\<lambda>c. c \<noteq> CHR '':'') org = ''://'' @ named
            then Some (if take 1 rest = ''/'' then rest else CHR ''/'' # rest)
            else None)
      else if u = [] then Some (takeWhile (\<lambda>c. c \<noteq> CHR ''#'') current)
      else if take 1 u = ''?''
        then Some (takeWhile (\<lambda>c. c \<noteq> CHR ''?'' \<and> c \<noteq> CHR ''#'') current @ u)
      else None)"

fun stringify :: "jsval \<Rightarrow> string" where
  "stringify JUndefined = ''null''"
| "stringify JNull = ''null''"
| "stringify (JBool b) = (if b then ''true'' else ''false'')"
| "stringify (JNum n) = (if n < 0 then CHR ''-'' # show_nat (nat (- n)) else show_nat (nat n))"
| "stringify (JStr s) = CHR 0x22 # s @ [CHR 0x22]"
| "stringify (JArr vs) = ''['' @ join_with '','' (map stringify vs) @ '']''"
| "stringify (JObj kvs) =
     ''{'' @ join_with '',''
               (map (\<lambda>kv. CHR 0x22 # fst kv @ [CHR 0x22] @ '':'' @ stringify (snd kv)) kvs) @ ''}''"

definition alice :: jsval where
  "alice = JObj [(''id'', JNum 1), (''email'', JStr ''alice@example.com''), (''isAdmin'', JBool False)]"

definition example_host :: "(nat \<Rightarrow> response option) \<Rightarrow> host" where
  "example_host answers =
     \<lparr> net = answers,
       storage_fault = (\<lambda>n. False),
       json_parse = [stringify alice \<mapsto> alice],
       json_stringify = stringify,
       resolve = example_resolve \<rparr>"

text \<open>Replies of the validate endpoint.\<close>

definition reply_invalid :: response where
  "reply_invalid = Response (Some (JObj [(''valid'', JBool False)]))"

definition reply_valid :: "jsval list \<Rightarrow> response" where
  "reply_valid access =
     Response (Some (JObj ([(''valid'', JBool True), (''user'', alice)]
                           @ map (\<lambda>v. (''hasResourceAccess'', v)) access)))"

text \<open>A page with empty storage, and the same page after a session for \<open>alice\<close> under
  the token \<^verbatim>\<open>T1\<close> was stored.\<close>

definition empty_page :: page where
  "empty_page = \<lparr> items = Map.empty, store_ops = 0, requests = [],
                  origin = ''https://app.example.com'', url = ''/dashboard'', events = [] \<rparr>"

definition stored_page :: page where
  "stored_page = empty_page
     \<lparr> items := [''inmapper_auth_token'' \<mapsto> ''T1'', ''inmapper_auth_user'' \<mapsto> stringify alice] \<rparr>"

text \<open>An initialised instance holding the token \<^verbatim>\<open>T1\<close>, without and with the cached
  user.\<close>

definition session_T1 :: inmapper_auth where
  "session_T1 = \<lparr> config = DEFAULT_CONFIG, user = JNull, token = Some ''T1'', initialized = True \<rparr>"

definition session_alice :: inmapper_auth where
  "session_alice = \<lparr> config = DEFAULT_CONFIG, user = alice, token = Some ''T1'', initialized = True \<rparr>"


section \<open>What the storage functions change\<close>

text \<open>None of the storage functions throws: each failure of the store is caught inside
  the function. They leave the network log, the location and the events alone.\<close>

lemmas js_defs = js_ret_def js_throw_def js_bind_def js_seq_def js_try_def js_when_def
  get_this_def get_page_def upd_this_def upd_page_def emit_def

lemmas storage_defs = storage_access_def getItem_def setItem_def removeItem_def

lemma saveToStorage_result: "fst (saveToStorage h s) = Inr ()"
  by (simp add: saveToStorage_def js_defs storage_defs Let_def split: prod.splits sum.splits)

lemma saveToStorage_this: "fst (snd (saveToStorage h s)) = fst s"
  by (simp add: saveToStorage_def js_defs storage_defs Let_def split: prod.splits sum.splits)

lemma saveToStorage_frame:
  "requests (snd (snd (saveToStorage h s))) = requests (snd s)"
  "events (snd (snd (saveToStorage h s))) = events (snd s)"
  "url (snd (snd (saveToStorage h s))) = url (snd s)"
  "origin (snd (snd (saveToStorage h s))) = origin (snd s)"
  by (simp_all add: saveToStorage_def js_defs storage_defs Let_def split: prod.splits sum.splits)

lemma loadFromStorage_result: "fst (loadFromStorage h s) = Inr ()"
  by (simp add: loadFromStorage_def JSON_parse_def js_defs storage_defs Let_def split: prod.splits sum.splits option.splits)

lemma loadFromStorage_this:
  "config (fst (snd (loadFromStorage h s))) = config (fst s)"
  "initialized (fst (snd (loadFromStorage h s))) = initialized (fst s)"
  by (simp_all add: loadFromStorage_def JSON_parse_def js_defs storage_defs Let_def split: prod.splits sum.splits option.splits)

lemma loadFromStorage_frame:
  "requests (snd (snd (loadFromStorage h s))) = requests (snd s)"
  "events (snd (snd (loadFromStorage h s))) = events (snd s)"
  "url (snd (snd (loadFromStorage h s))) = url (snd s)"
  "origin (snd (snd (loadFromStorage h s))) = origin (snd s)"
  "items (snd (snd (loadFromStorage h s))) = items (snd s)"
  by (simp_all add: loadFromStorage_def JSON_parse_def js_defs storage_defs Let_def split: prod.splits sum.splits option.splits)

lemma clearAuth_result: "fst (clearAuth h s) = Inr ()"
  by (simp add: clearAuth_def js_defs storage_defs Let_def split: prod.splits sum.splits)

lemma clearAuth_this:
  "token (fst (snd (clearAuth h s))) = None"
  "user (fst (snd (clearAuth h s))) = JNull"
  "config (fst (snd (clearAuth h s))) = config (fst s)"
  "initialized (fst (snd (clearAuth h s))) = initialized (fst s)"
  by (simp_all add: clearAuth_def js_defs storage_defs Let_def split: prod.splits sum.splits)

lemma clearAuth_frame:
  "requests (snd (snd (clearAuth h s))) = requests (snd s)"
  "events (snd (snd (clearAuth h s))) = events (snd s)"
  "url (snd (snd (clearAuth h s))) = url (snd s)"
  "origin (snd (snd (clearAuth h s))) = origin (snd s)"
  by (simp_all add: clearAuth_def js_defs storage_defs Let_def split: prod.splits sum.splits)

lemma clearAuth_items:
  "\<not> storage_fault h (store_ops (snd s)) \<Longrightarrow> \<not> storage_fault h (Suc (store_ops (snd s))) \<Longrightarrow>
   items (snd (snd (clearAuth h s))) = (items (snd s))(tokenKey (config (fst s)) := None, userKey (config (fst s)) := None)"
  by (simp add: clearAuth_def js_defs storage_defs Let_def split: prod.splits sum.splits)

lemma replaceState_this: "fst (snd (replaceState h u s)) = fst s"
  by (simp add: replaceState_def js_defs split: option.splits)

lemma replaceState_frame:
  "requests (snd (snd (replaceState h u s))) = requests (snd s)"
  "events (snd (snd (replaceState h u s))) = events (snd s)"
  "origin (snd (snd (replaceState h u s))) = origin (snd s)"
  "items (snd (snd (replaceState h u s))) = items (snd s)"
  by (simp_all add: replaceState_def js_defs split: option.splits)

lemma replaceState_plain:
  "plain_path u \<Longrightarrow> replaceState h u s = (Inr (), (fst s, (snd s)\<lparr>url := u\<rparr>))"
  by (simp add: replaceState_def js_defs)

lemma handleCallbackToken_this:
  "config (fst (snd (handleCallbackToken h s))) = config (fst s)"
  "initialized (fst (snd (handleCallbackToken h s))) = initialized (fst s)"
  "user (fst (snd (handleCallbackToken h s))) = user (fst s)"
  by (simp_all add: handleCallbackToken_def js_defs Let_def split_beta saveToStorage_result
        saveToStorage_this replaceState_this)

lemma handleCallbackToken_frame:
  "requests (snd (snd (handleCallbackToken h s))) = requests (snd s)"
  "events (snd (snd (handleCallbackToken h s))) = events (snd s)"
  "origin (snd (snd (handleCallbackToken h s))) = origin (snd s)"
  by (simp_all add: handleCallbackToken_def js_defs Let_def split_beta saveToStorage_result
        saveToStorage_frame replaceState_frame)

text \<open>\<^verbatim>\<open>init\<close> can end with the exception of \<^verbatim>\<open>replaceState\<close>; the instance is then not
  marked as initialised. When it returns, the instance is.\<close>

lemma init_this:
  "config (fst (snd (init h s))) = config (fst s)"
  by (simp add: init_def js_defs split_beta handleCallbackToken_this loadFromStorage_result
        loadFromStorage_this split: sum.splits)

lemma init_frame:
  "requests (snd (snd (init h s))) = requests (snd s)"
  "events (snd (snd (init h s))) = events (snd s)"
  "origin (snd (snd (init h s))) = origin (snd s)"
  by (simp_all add: init_def js_defs split_beta handleCallbackToken_frame loadFromStorage_result
        loadFromStorage_frame split: sum.splits)

lemma init_returned:
  "init h s = (Inr (), (a, w)) \<Longrightarrow> initialized a"
  by (cases "initialized (fst s)")
     (auto simp add: init_def js_defs split_beta loadFromStorage_result split: sum.splits)

lemma init_done: "initialized (fst s) \<Longrightarrow> init h s = (Inr (), s)"
  by (simp add: init_def js_defs)

lemma init_thrown:
  "fst (init h s) = Inl e \<Longrightarrow> fst (handleCallbackToken h s) = Inl e \<and> \<not> initialized (fst s)"
  by (cases "initialized (fst s)")
     (auto simp add: init_def js_defs split_beta loadFromStorage_result split: sum.splits)

section \<open>\<^verbatim>\<open>getUser\<close>, case by case\<close>

lemma setToken_result: "fst (setToken h t s) = Inr ()"
  by (simp add: setToken_def js_defs split_beta saveToStorage_result)

lemma response_json_case:
  "response_json r = (case r of Response None \<Rightarrow> js_throw SyntaxError | Response (Some d) \<Rightarrow> js_ret d)"
  by (cases r rule: response_json.cases) simp_all

lemma getUser_thrown:
  "fst (init h s) = Inl e \<Longrightarrow> getUser h f r s = (Inl e, snd (init h s))"
  by (cases "init h s") (simp add: getUser_def js_defs)

lemma getUser_plain:
  assumes "init h s = (Inr (), (a, w))"
  shows "fst (getUser h f None s) = Inr JNull \<or>
   (fst (getUser h f None s) = Inr (user (fst (snd (getUser h f None s))))
     \<and> truthy (user (fst (snd (getUser h f None s)))))"
  using assms
  by (simp add: getUser_def js_defs split_beta window_fetch_def get_prop_def
        response_json_case
        saveToStorage_result saveToStorage_this clearAuth_result clearAuth_this
      split: option.splits sum.splits response.splits)

lemmas getUser_unfold = getUser_def js_defs split_beta window_fetch_def get_prop_def opt_member_def
        response_json_case

lemma getUser_fetch_rejects:
  assumes "init h s = (Inr (), (a, w))"
    and "truthy_str (token a)"
    and "\<not> truthy (user a) \<or> forceRefresh \<or> truthy_str resource"
    and "net h (length (requests w)) = None"
  shows "fst (getUser h forceRefresh resource s) = Inr JNull"
    and "fst (snd (getUser h forceRefresh resource s)) = a"
    and "items (snd (snd (getUser h forceRefresh resource s))) = items w"
  using assms by (auto simp add: getUser_unfold)

lemma getUser_json_rejects:
  assumes "init h s = (Inr (), (a, w))"
    and "truthy_str (token a)"
    and "\<not> truthy (user a) \<or> forceRefresh \<or> truthy_str resource"
    and "net h (length (requests w)) = Some (Response None)"
  shows "fst (getUser h forceRefresh resource s) = Inr JNull"
    and "fst (snd (getUser h forceRefresh resource s)) = a"
    and "items (snd (snd (getUser h forceRefresh resource s))) = items w"
  using assms by (auto simp add: getUser_unfold)

lemma getUser_no_valid:
  assumes "init h s = (Inr (), (a, w))"
    and "truthy_str (token a)"
    and "\<not> truthy (user a) \<or> forceRefresh \<or> truthy_str resource"
    and "net h (length (requests w)) = Some (Response (Some d))"
    and "member d ''valid'' = Inl e"
  shows "fst (getUser h forceRefresh resource s) = Inr JNull"
    and "fst (snd (getUser h forceRefresh resource s)) = a"
    and "items (snd (snd (getUser h forceRefresh resource s))) = items w"
  using assms by (auto simp add: getUser_unfold)

lemma member_user_of_valid: "member d ''valid'' = Inr v \<Longrightarrow> member d ''user'' = Inr (opt_member d ''user'')"
  by (cases d) (simp_all add: opt_member_def split: option.splits)

lemma member_access_of_valid: "member d ''valid'' = Inr v \<Longrightarrow> member d ''hasResourceAccess'' = Inr (opt_member d ''hasResourceAccess'')"
  by (cases d) (simp_all add: opt_member_def split: option.splits)

lemma getUser_invalid:
  assumes "init h s = (Inr (), (a, w))"
    and "truthy_str (token a)"
    and "\<not> truthy (user a) \<or> forceRefresh \<or> truthy_str resource"
    and "net h (length (requests w)) = Some (Response (Some d))"
    and "member d ''valid'' = Inr valid"
    and "\<not> (truthy valid \<and> truthy (opt_member d ''user''))"
  shows "fst (getUser h forceRefresh resource s) = Inr JNull"
    and "token (fst (snd (getUser h forceRefresh resource s))) = None"
    and "user (fst (snd (getUser h forceRefresh resource s))) = JNull"
    and "\<not> storage_fault h (store_ops w) \<Longrightarrow> \<not> storage_fault h (Suc (store_ops w)) \<Longrightarrow>
               items (snd (snd (getUser h forceRefresh resource s)))
                 = (items w)(tokenKey (config a) := None, userKey (config a) := None)"
  using assms member_user_of_valid [OF assms(5)]
  by (auto simp add: getUser_def js_defs split_beta window_fetch_def get_prop_def response_json_case
       clearAuth_result clearAuth_this clearAuth_items)

lemma getUser_valid:
  assumes "init h s = (Inr (), (a, w))"
    and "truthy_str (token a)"
    and "\<not> truthy (user a) \<or> forceRefresh \<or> truthy_str resource"
    and "net h (length (requests w)) = Some (Response (Some d))"
    and "member d ''valid'' = Inr valid"
    and "truthy valid" and "truthy (opt_member d ''user'')"
  shows "fst (getUser h forceRefresh resource s) =
           Inr (if truthy_str resource
                then JObj [(''user'', opt_member d ''user''), (''hasResourceAccess'', opt_member d ''hasResourceAccess'')]
                else opt_member d ''user'')"
    and "fst (snd (getUser h forceRefresh resource s)) = a\<lparr>user := opt_member d ''user''\<rparr>"
    and "events (snd (snd (getUser h forceRefresh resource s))) =
           events w @ (if onAuthSuccess (config a) then [AuthSuccessHook (opt_member d ''user'')] else [])"
  using assms member_user_of_valid [OF assms(5)] member_access_of_valid [OF assms(5)]
  by (auto simp add: getUser_def js_defs split_beta window_fetch_def get_prop_def response_json_case
       saveToStorage_result saveToStorage_this saveToStorage_frame)

lemma getUser_requests:
  assumes "init h s = (Inr (), (a, w))"
    and "truthy_str (token a)"
    and "\<not> truthy (user a) \<or> forceRefresh \<or> truthy_str resource"
  shows "requests (snd (snd (getUser h forceRefresh resource s))) =
           requests w @ [(apiUrl (config a) @ ''/auth/validate'',
                          post_json (json_stringify h (validate_body (token a) resource)))]"
  using assms
  by (auto simp add: getUser_def js_defs split_beta window_fetch_def get_prop_def response_json_case
       saveToStorage_result saveToStorage_this saveToStorage_frame clearAuth_result clearAuth_frame
      split: option.splits sum.splits response.splits)

lemma getUser_cached:
  assumes "init h s = (Inr (), (a, w))" and "truthy_str (token a)" and "truthy (user a)"
    and "\<not> forceRefresh" and "\<not> truthy_str resource"
  shows "getUser h forceRefresh resource s = (Inr (user a), (a, w))"
  using assms by (simp add: getUser_def js_defs)

lemma getUser_no_token:
  assumes "init h s = (Inr (), (a, w))" and "\<not> truthy_str (token a)"
  shows "getUser h forceRefresh resource s = (Inr JNull, (a, w))"
  using assms by (simp add: getUser_def js_defs)

lemma member_of_truthy: "truthy (opt_member d k) \<Longrightarrow> member d k' = Inr (opt_member d k')"
  by (cases d) (simp_all add: opt_member_def split: option.splits)

lemma getUser_token_changes:
  assumes "init h s = (Inr (), (a, w))"
    and "truthy_str (token a)"
    and "\<not> truthy (user a) \<or> forceRefresh \<or> truthy_str resource"
    and changed: "token (fst (snd (getUser h forceRefresh resource s))) \<noteq> token a"
  shows "\<exists>d valid. net h (length (requests w)) = Some (Response (Some d)) \<and> member d ''valid'' = Inr valid
          \<and> \<not> (truthy valid \<and> truthy (opt_member d ''user''))"
proof (cases "net h (length (requests w))")
  case None
  with changed getUser_fetch_rejects(2) [OF assms(1,2,3)] show ?thesis by simp
next
  case (Some r)
  show ?thesis
  proof (cases r)
    case (Response b)
    show ?thesis
    proof (cases b)
      case None
      with Some Response changed getUser_json_rejects(2) [OF assms(1,2,3)] show ?thesis by simp
    next
      case (Some d)
      with \<open>net h (length (requests w)) = Some r\<close> Response
      have n: "net h (length (requests w)) = Some (Response (Some d))" by simp
      show ?thesis
      proof (cases "member d ''valid''")
        case (Inl e)
        with changed getUser_no_valid(2) [OF assms(1,2,3) n] show ?thesis by simp
      next
        case (Inr valid)
        show ?thesis
        proof (cases "truthy valid \<and> truthy (opt_member d ''user'')")
          case True
          with changed getUser_valid(2) [OF assms(1,2,3) n Inr] show ?thesis by simp
        next
          case False
          with n Inr show ?thesis by blast
        qed
      qed
    qed
  qed
qed

lemma getUser_scoped_value:
  assumes "init h s = (Inr (), (a, w))"
    and "truthy_str (token a)"
    and "truthy_str resource"
  shows "opt_member (case fst (getUser h True resource s) of Inl e \<Rightarrow> JNull | Inr v \<Rightarrow> v) ''hasResourceAccess'' = JBool True
         \<longleftrightarrow> (\<exists>d. net h (length (requests w)) = Some (Response (Some d))
                \<and> truthy (opt_member d ''valid'') \<and> truthy (opt_member d ''user'')
                \<and> opt_member d ''hasResourceAccess'' = JBool True)"
proof -
  have att: "\<not> truthy (user a) \<or> True \<or> truthy_str resource" by simp
  show ?thesis
  proof (cases "net h (length (requests w))")
    case None
    with getUser_fetch_rejects(1) [OF assms(1,2) att] show ?thesis by (simp add: opt_member_def)
  next
    case (Some r)
    show ?thesis
    proof (cases r)
      case (Response b)
      show ?thesis
      proof (cases b)
        case None
        with Some Response getUser_json_rejects(1) [OF assms(1,2) att] show ?thesis
          by (simp add: opt_member_def)
      next
        case (Some d)
        with \<open>net h (length (requests w)) = Some r\<close> Response
        have n: "net h (length (requests w)) = Some (Response (Some d))" by simp
        show ?thesis
        proof (cases "member d ''valid''")
          case (Inl e)
          then have "opt_member d ''valid'' = JUndefined" by (simp add: opt_member_def)
          with Inl n getUser_no_valid(1) [OF assms(1,2) att n Inl] show ?thesis
            by (simp add: opt_member_def)
        next
          case (Inr valid)
          then have ov: "opt_member d ''valid'' = valid" by (simp add: opt_member_def)
          show ?thesis
          proof (cases "truthy valid \<and> truthy (opt_member d ''user'')")
            case True
            with n ov assms(3) getUser_valid(1) [OF assms(1,2) att n Inr] show ?thesis
              by (simp add: opt_member_def)
          next
            case False
            with n ov getUser_invalid(1) [OF assms(1,2) att n Inr] show ?thesis
              by (auto simp add: opt_member_def)
          qed
        qed
      qed
    qed
  qed
qed

lemma getUser_result:
  assumes "init h s = (Inr (), (a, w))"
  shows "\<exists>v. fst (getUser h f r s) = Inr v"
  using assms
  by (simp add: getUser_def js_defs split_beta window_fetch_def get_prop_def
        response_json_case
        saveToStorage_result saveToStorage_this clearAuth_result clearAuth_this
      split: option.splits sum.splits response.splits)

lemma getUser_initialized:
  assumes "init h s = (Inr (), (a, w))"
  shows "initialized (fst (snd (getUser h f r s)))"
  using assms init_returned [OF assms]
  by (simp add: getUser_def js_defs split_beta window_fetch_def get_prop_def
        response_json_case
        saveToStorage_result saveToStorage_this clearAuth_result clearAuth_this
      split: option.splits sum.splits response.splits)

lemma login_run:
  "login None s = (Inr (), (fst s, (snd s)\<lparr>events := events (snd s) @
      [Navigate (loginUrl (config (fst s)) @ ''?callback='' @ encodeURIComponent (location_href (snd s)))]\<rparr>))"
  by (simp add: login_def navigate_def js_defs)

lemma redirectToLogin_result: "fst (redirectToLogin s) = Inr ()"
  by (simp add: redirectToLogin_def login_run js_defs split_beta)

lemma redirectToLogin_frame:
  "fst (snd (redirectToLogin s)) = fst s"
  "requests (snd (snd (redirectToLogin s))) = requests (snd s)"
  by (simp_all add: redirectToLogin_def login_run js_defs split_beta)

lemma member_truthy: "truthy v \<Longrightarrow> member v k = Inr (opt_member v k)"
  by (cases v) (simp_all add: opt_member_def split: option.splits)

lemma protect_run:
  assumes "init h s = (Inr (), (a, w))"
    and "getUser h False (if truthy_str options_resourceId then options_resourceId
                          else resourceId (config a)) (a, w) = (Inr result, s')"
  shows "protect h options_resourceId s =
          (if \<not> truthy result then js_seq redirectToLogin (js_ret JNull) s'
           else if opt_member result ''hasResourceAccess'' = JBool False
                then js_seq (handleAccessDenied (opt_member result ''user'')) (js_ret JNull) s'
                else (Inr (if truthy (opt_member result ''user'') then opt_member result ''user''
                           else result), s'))"
proof (cases "truthy result")
  case False
  with assms show ?thesis
    by (cases "truthy_str options_resourceId") (simp_all add: protect_def js_defs)
next
  case True
  with assms member_truthy [OF True] show ?thesis
    by (cases "truthy_str options_resourceId") (simp_all add: protect_def js_defs get_prop_def)
qed

lemma protect_cached:
  assumes "init h s = (Inr (), (a, w))" and "truthy_str (token a)" and "truthy (user a)"
    and "\<not> truthy_str options_resourceId" and "\<not> truthy_str (resourceId (config a))"
  shows "fst (protect h options_resourceId s) =
           Inr (if opt_member (user a) ''hasResourceAccess'' = JBool False then JNull
                else if truthy (opt_member (user a) ''user'') then opt_member (user a) ''user''
                else user a)"
    and "fst (snd (protect h options_resourceId s)) = a"
    and "requests (snd (snd (protect h options_resourceId s))) = requests w"
proof -
  have ini: "initialized a" using init_returned [OF assms(1)] .
  have again: "init h (a, w) = (Inr (), (a, w))" using ini by (simp add: init_done)
  have g: "getUser h False (if truthy_str options_resourceId then options_resourceId else resourceId (config a)) (a, w)
      = (Inr (user a), (a, w))"
    using getUser_cached [OF again assms(2,3)] assms(4,5) by simp
  note run = protect_run [OF assms(1) g]
  show "fst (protect h options_resourceId s) =
           Inr (if opt_member (user a) ''hasResourceAccess'' = JBool False then JNull
                else if truthy (opt_member (user a) ''user'') then opt_member (user a) ''user''
                else user a)"
    using assms(3) by (simp add: run handleAccessDenied_def js_defs)
  show "fst (snd (protect h options_resourceId s)) = a"
    using assms(3) by (simp add: run handleAccessDenied_def js_defs)
  show "requests (snd (snd (protect h options_resourceId s))) = requests w"
    using assms(3) by (simp add: run handleAccessDenied_def js_defs)
qed

lemma hasPermission_run:
  assumes "init h s = (Inr (), (a, w))"
  shows "hasPermission h resource s =
     (Inr (opt_member (case fst (getUser h True resource s) of Inl e \<Rightarrow> JNull | Inr v \<Rightarrow> v) ''hasResourceAccess'' = JBool True),
      snd (getUser h True resource s))"
  using getUser_result [OF assms, of True resource]
  by (auto simp add: hasPermission_def js_defs split_beta)

lemma getUser_value:
  assumes "init h s = (Inr (), (a, w))"
    and "truthy_str (token a)"
    and "\<not> truthy (user a) \<or> forceRefresh \<or> truthy_str resource"
  shows "fst (getUser h forceRefresh resource s) =
           Inr (case net h (length (requests w)) of
                  None \<Rightarrow> JNull
                | Some (Response None) \<Rightarrow> JNull
                | Some (Response (Some d)) \<Rightarrow>
                    if truthy (opt_member d ''valid'') \<and> truthy (opt_member d ''user'')
                    then (if truthy_str resource
                          then JObj [(''user'', opt_member d ''user''),
                                     (''hasResourceAccess'', opt_member d ''hasResourceAccess'')]
                          else opt_member d ''user'')
                    else JNull)"
proof (cases "net h (length (requests w))")
  case None
  with getUser_fetch_rejects(1) [OF assms] show ?thesis by simp
next
  case (Some r)
  show ?thesis
  proof (cases r)
    case (Response b)
    show ?thesis
    proof (cases b)
      case None
      with Some Response getUser_json_rejects(1) [OF assms] show ?thesis by simp
    next
      case (Some d)
      with \<open>net h (length (requests w)) = Some r\<close> Response
      have n: "net h (length (requests w)) = Some (Response (Some d))" by simp
      show ?thesis
      proof (cases "member d ''valid''")
        case (Inl e)
        then have "opt_member d ''valid'' = JUndefined" by (simp add: opt_member_def)
        with n getUser_no_valid(1) [OF assms n Inl] show ?thesis by simp
      next
        case (Inr valid)
        then have ov: "opt_member d ''valid'' = valid" by (simp add: opt_member_def)
        show ?thesis
        proof (cases "truthy valid \<and> truthy (opt_member d ''user'')")
          case True
          with n ov getUser_valid(1) [OF assms n Inr] show ?thesis by simp
        next
          case False
          with n ov getUser_invalid(1) [OF assms n Inr] show ?thesis by auto
        qed
      qed
    qed
  qed
qed

lemma setToken_run:
  "setToken h t (a, w) = (Inr (), (a\<lparr>token := t, user := JNull\<rparr>,
      snd (snd (saveToStorage h (a\<lparr>token := t, user := JNull\<rparr>, w)))))"
  using saveToStorage_result [of h "(a\<lparr>token := t, user := JNull\<rparr>, w)"]
    saveToStorage_this [of h "(a\<lparr>token := t, user := JNull\<rparr>, w)"]
  by (cases "saveToStorage h (a\<lparr>token := t, user := JNull\<rparr>, w)")
     (simp add: setToken_def js_defs)

section \<open>Running the model\<close>

lemmas example_defs = example_host_def reply_invalid_def reply_valid_def empty_page_def stored_page_def
  session_T1_def session_alice_def DEFAULT_CONFIG_def alice_def

lemmas run_defs = new_auth_def setToken_def getUser_def init_def protect_def hasPermission_def
     js_defs storage_defs window_fetch_def get_prop_def opt_member_def
     saveToStorage_def loadFromStorage_def handleCallbackToken_def clearAuth_def JSON_parse_def
     URLSearchParams_def usp_get_def location_search_def location_pathname_def Let_def
     validate_body_def post_json_def handleAccessDenied_def redirectToLogin_def login_def navigate_def
     replaceState_def plain_path_def example_resolve_def parse_pair_def form_decode_def
     in_range_def FFFD_def

section \<open>Validation failures\<close>

text \<open>
  C1. Take any state in which \<^verbatim>\<open>getUser\<close> makes a validation attempt: after
  initialisation a token is held, and the cached user is missing, or a refresh is
  forced, or a resource is given. If \<^verbatim>\<open>fetch\<close> rejects or \<^verbatim>\<open>response.json()\<close> rejects,
  \<^verbatim>\<open>getUser\<close> returns \<^verbatim>\<open>null\<close> and the instance (token and cached user) and the store
  are as they were. If the reply is an object that is not valid, or has no user,
  \<^verbatim>\<open>getUser\<close> returns \<^verbatim>\<open>null\<close> and the session is cleared: token and user are \<^verbatim>\<open>null\<close>
  in memory, and both keys are removed from the store when the store accepts the two
  removals. The token changes in no other case.
\<close>

theorem getUser_failure_modes:
  assumes "init h s = (Inr (), (a, w))"
    and "truthy_str (token a)"
    and "\<not> truthy (user a) \<or> forceRefresh \<or> truthy_str resource"
  shows "(net h (length (requests w)) = None \<or> net h (length (requests w)) = Some (Response None) \<longrightarrow>
            fst (getUser h forceRefresh resource s) = Inr JNull
          \<and> fst (snd (getUser h forceRefresh resource s)) = a
          \<and> items (snd (snd (getUser h forceRefresh resource s))) = items w)
       \<and> (\<forall>d valid. net h (length (requests w)) = Some (Response (Some d)) \<and> member d ''valid'' = Inr valid
              \<and> \<not> (truthy valid \<and> truthy (opt_member d ''user'')) \<longrightarrow>
            fst (getUser h forceRefresh resource s) = Inr JNull
          \<and> token (fst (snd (getUser h forceRefresh resource s))) = None
          \<and> user (fst (snd (getUser h forceRefresh resource s))) = JNull
          \<and> (\<not> storage_fault h (store_ops w) \<and> \<not> storage_fault h (Suc (store_ops w)) \<longrightarrow>
               items (snd (snd (getUser h forceRefresh resource s)))
                 = (items w)(tokenKey (config a) := None, userKey (config a) := None)))
       \<and> (token (fst (snd (getUser h forceRefresh resource s))) \<noteq> token a \<longrightarrow>
            (\<exists>d valid. net h (length (requests w)) = Some (Response (Some d)) \<and> member d ''valid'' = Inr valid
              \<and> \<not> (truthy valid \<and> truthy (opt_member d ''user''))))"
proof (intro conjI allI impI)
  assume "net h (length (requests w)) = None \<or> net h (length (requests w)) = Some (Response None)"
  then have keep: "fst (getUser h forceRefresh resource s) = Inr JNull
      \<and> fst (snd (getUser h forceRefresh resource s)) = a
      \<and> items (snd (snd (getUser h forceRefresh resource s))) = items w"
    using getUser_fetch_rejects [OF assms] getUser_json_rejects [OF assms] by blast
  from keep show "fst (getUser h forceRefresh resource s) = Inr JNull" by simp
  from keep show "fst (snd (getUser h forceRefresh resource s)) = a" by simp
  from keep show "items (snd (snd (getUser h forceRefresh resource s))) = items w" by simp
next
  fix d valid
  assume inv: "net h (length (requests w)) = Some (Response (Some d)) \<and> member d ''valid'' = Inr valid
      \<and> \<not> (truthy valid \<and> truthy (opt_member d ''user''))"
  then have n: "net h (length (requests w)) = Some (Response (Some d))"
    and m: "member d ''valid'' = Inr valid"
    and f: "\<not> (truthy valid \<and> truthy (opt_member d ''user''))" by simp_all
  show "fst (getUser h forceRefresh resource s) = Inr JNull"
    by (rule getUser_invalid(1) [OF assms n m f])
  show "token (fst (snd (getUser h forceRefresh resource s))) = None"
    by (rule getUser_invalid(2) [OF assms n m f])
  show "user (fst (snd (getUser h forceRefresh resource s))) = JNull"
    by (rule getUser_invalid(3) [OF assms n m f])
  assume "\<not> storage_fault h (store_ops w) \<and> \<not> storage_fault h (Suc (store_ops w))"
  then show "items (snd (snd (getUser h forceRefresh resource s)))
                 = (items w)(tokenKey (config a) := None, userKey (config a) := None)"
    using getUser_invalid(4) [OF assms n m f] by simp
next
  assume "token (fst (snd (getUser h forceRefresh resource s))) \<noteq> token a"
  from getUser_token_changes [OF assms this]
  show "\<exists>d valid. net h (length (requests w)) = Some (Response (Some d)) \<and> member d ''valid'' = Inr valid
          \<and> \<not> (truthy valid \<and> truthy (opt_member d ''user''))" .
qed

theorem getUser_failure_modes_witness:
  "fst (getUser (example_host (\<lambda>n. None)) False None (session_T1, stored_page)) = Inr JNull
   \<and> fst (snd (getUser (example_host (\<lambda>n. None)) False None (session_T1, stored_page))) = session_T1
   \<and> items (snd (snd (getUser (example_host (\<lambda>n. None)) False None (session_T1, stored_page)))) = items stored_page
   \<and> token (fst (snd (getUser (example_host (\<lambda>n. Some reply_invalid)) False None (session_T1, stored_page)))) = None
   \<and> items (snd (snd (getUser (example_host (\<lambda>n. Some reply_invalid)) False None (session_T1, stored_page)))) ''inmapper_auth_token'' = None"
proof -
  have i: "init h (session_T1, stored_page) = (Inr (), (session_T1, stored_page))" for h
    by (simp add: init_done session_T1_def)
  have t: "truthy_str (token session_T1)" by (simp add: session_T1_def)
  have u: "\<not> truthy (user session_T1) \<or> False \<or> truthy_str None" by (simp add: session_T1_def)
  show ?thesis
    using getUser_failure_modes [OF i t u, of "example_host (\<lambda>n. None)"]
      getUser_failure_modes [OF i t u, of "example_host (\<lambda>n. Some reply_invalid)", THEN conjunct2, THEN conjunct1,
         rule_format, of "JObj [(''valid'', JBool False)]" "JBool False"]
    by (simp add: example_defs opt_member_def)
qed

section \<open>A token change and the stored user\<close>

text \<open>
  C2. A token change is meant to invalidate the cached user, and \<^verbatim>\<open>setToken\<close> does set
  the user in memory to \<^verbatim>\<open>null\<close>. But \<^verbatim>\<open>_saveToStorage\<close> writes a slot only when its
  value is truthy and never removes one, so the user stored under the previous token
  stays in the store. Here a page holds \<open>alice\<close> under \<^verbatim>\<open>T1\<close>; \<^verbatim>\<open>setToken('T2')\<close> is
  called; the page is reloaded (a new instance over the same store). \<^verbatim>\<open>getUser()\<close>
  then returns \<open>alice\<close> under the token \<^verbatim>\<open>T2\<close> without any request, although the
  server would have answered that the token is not valid.
\<close>

theorem setToken_keeps_stored_user:
  "user (fst (snd (setToken (example_host (\<lambda>n. Some reply_invalid)) (Some ''T2'') (session_alice, stored_page)))) = JNull
   \<and> items (snd (snd (setToken (example_host (\<lambda>n. Some reply_invalid)) (Some ''T2'') (session_alice, stored_page))))
        ''inmapper_auth_token'' = Some ''T2''
   \<and> items (snd (snd (setToken (example_host (\<lambda>n. Some reply_invalid)) (Some ''T2'') (session_alice, stored_page))))
        ''inmapper_auth_user'' = Some (stringify alice)
   \<and> fst (getUser (example_host (\<lambda>n. Some reply_invalid)) False None
        (new_auth DEFAULT_CONFIG,
         snd (snd (setToken (example_host (\<lambda>n. Some reply_invalid)) (Some ''T2'') (session_alice, stored_page)))))
       = Inr alice
   \<and> token (fst (snd (getUser (example_host (\<lambda>n. Some reply_invalid)) False None
        (new_auth DEFAULT_CONFIG,
         snd (snd (setToken (example_host (\<lambda>n. Some reply_invalid)) (Some ''T2'') (session_alice, stored_page)))))))
       = Some ''T2''
   \<and> requests (snd (snd (getUser (example_host (\<lambda>n. Some reply_invalid)) False None
        (new_auth DEFAULT_CONFIG,
         snd (snd (setToken (example_host (\<lambda>n. Some reply_invalid)) (Some ''T2'') (session_alice, stored_page)))))))
       = []"
  by (simp add: run_defs example_defs)

text \<open>The same happens when the new token arrives in the URL: the interceptor stores
  it, and the load that follows reads the old user.\<close>

lemma callback_token_keeps_stored_user:
  "fst (getUser (example_host (\<lambda>n. Some reply_invalid)) False None
        (new_auth DEFAULT_CONFIG, stored_page\<lparr>url := ''/dashboard?token=T2''\<rparr>)) = Inr alice
   \<and> token (fst (snd (getUser (example_host (\<lambda>n. Some reply_invalid)) False None
        (new_auth DEFAULT_CONFIG, stored_page\<lparr>url := ''/dashboard?token=T2''\<rparr>)))) = Some ''T2''
   \<and> requests (snd (snd (getUser (example_host (\<lambda>n. Some reply_invalid)) False None
        (new_auth DEFAULT_CONFIG, stored_page\<lparr>url := ''/dashboard?token=T2''\<rparr>)))) = []"
  by (simp add: run_defs example_defs parse_pair_def form_decode_def)

section \<open>\<^verbatim>\<open>protect\<close>\<close>

text \<open>
  C4. When \<^verbatim>\<open>protect\<close> runs with a resource (its argument, or else the configured
  one), a token is held, and the validation reply is valid, carries a user and has
  \<^verbatim>\<open>hasResourceAccess: false\<close>, then \<^verbatim>\<open>protect\<close> returns \<^verbatim>\<open>null\<close> and takes the
  access-denied path: the \<^verbatim>\<open>onAccessDenied\<close> hook when one is configured, the default
  denial view otherwise. It does not navigate to the login page.
\<close>

theorem protect_access_denied:
  assumes "init h s = (Inr (), (a, w))"
    and "truthy_str (token a)"
    and "truthy_str (if truthy_str opts then opts else resourceId (config a))"
    and "net h (length (requests w)) = Some (Response (Some d))"
    and "truthy (opt_member d ''valid'')" and "truthy (opt_member d ''user'')"
    and "opt_member d ''hasResourceAccess'' = JBool False"
  shows "fst (protect h opts s) = Inr JNull
       \<and> events (snd (snd (protect h opts s))) =
           events (snd s)
           @ (if onAuthSuccess (config a) then [AuthSuccessHook (opt_member d ''user'')] else [])
           @ [if onAccessDenied (config a) then AccessDeniedHook (opt_member d ''user'')
              else DenialView (opt_member d ''user'')]
       \<and> (\<forall>x. Navigate x \<in> set (events (snd (snd (protect h opts s)))) \<longrightarrow> Navigate x \<in> set (events (snd s)))"
proof -
  let ?r = "if truthy_str opts then opts else resourceId (config a)"
  let ?u = "opt_member d ''user''"
  let ?res = "JObj [(''user'', ?u), (''hasResourceAccess'', JBool False)]"
  have ini: "initialized a" using init_returned [OF assms(1)] .
  have again: "init h (a, w) = (Inr (), (a, w))" using ini by (simp add: init_done)
  have ev: "events w = events (snd s)" using assms(1) init_frame(2) [of h s] by simp
  have att: "\<not> truthy (user a) \<or> False \<or> truthy_str ?r" using assms(3) by simp
  have m: "member d ''valid'' = Inr (opt_member d ''valid'')"
    using member_of_truthy [OF assms(5)] .
  note v = getUser_valid [OF again assms(2) att assms(4) m assms(5,6)]
  obtain s' where g: "getUser h False ?r (a, w) = (Inr ?res, s')"
    and e: "events (snd s') = events w @ (if onAuthSuccess (config a) then [AuthSuccessHook ?u] else [])"
    and c: "config (fst s') = config a"
    using v assms(3,7) by (cases "getUser h False ?r (a, w)") simp
  have p: "protect h opts s = js_seq (handleAccessDenied ?u) (js_ret JNull) s'"
    using protect_run [OF assms(1) g] by (simp add: opt_member_def)
  show ?thesis
    using e c ev by (auto simp add: p handleAccessDenied_def js_defs)
qed

theorem protect_access_denied_witness:
  "fst (protect (example_host (\<lambda>n. Some (reply_valid [JBool False]))) (Some ''admin'') (session_T1, stored_page)) = Inr JNull
   \<and> events (snd (snd (protect (example_host (\<lambda>n. Some (reply_valid [JBool False]))) (Some ''admin'') (session_T1, stored_page))))
       = [DenialView alice]"
proof -
  let ?h = "example_host (\<lambda>n. Some (reply_valid [JBool False]))"
  have i: "init ?h (session_T1, stored_page) = (Inr (), (session_T1, stored_page))"
    by (simp add: init_done session_T1_def)
  have t: "truthy_str (token session_T1)" by (simp add: session_T1_def)
  have r: "truthy_str (if truthy_str (Some ''admin'') then Some ''admin'' else resourceId (config session_T1))"
    by simp
  have n: "net ?h (length (requests stored_page))
            = Some (Response (Some (JObj [(''valid'', JBool True), (''user'', alice), (''hasResourceAccess'', JBool False)])))"
    by (simp add: example_defs)
  show ?thesis
    using protect_access_denied [OF i t r n]
    by (simp add: opt_member_def example_defs)
qed

text \<open>
  C8. On a session that holds a token and a cached user, with no resource in the
  call or in the configuration, two calls of \<^verbatim>\<open>protect\<close> in a row send no request at
  all (so at most one): both are answered from the cached user, and the second
  returns what the first returned.
\<close>

theorem protect_twice_cached:
  assumes "init h s = (Inr (), (a, w))" and "truthy_str (token a)" and "truthy (user a)"
    and "\<not> truthy_str opts1" and "\<not> truthy_str opts2" and "\<not> truthy_str (resourceId (config a))"
  shows "requests (snd (snd (protect h opts2 (snd (protect h opts1 s))))) = requests w
       \<and> length (requests (snd (snd (protect h opts2 (snd (protect h opts1 s)))))) \<le> length (requests (snd s)) + 1
       \<and> fst (snd (protect h opts2 (snd (protect h opts1 s)))) = a
       \<and> fst (protect h opts2 (snd (protect h opts1 s))) = fst (protect h opts1 s)"
proof -
  obtain w1 where s1: "snd (protect h opts1 s) = (a, w1)" and r1: "requests w1 = requests w"
    using protect_cached(2,3) [OF assms(1,2,3,4,6)] by (cases "snd (protect h opts1 s)") simp
  have ini: "initialized a" using init_returned [OF assms(1)] .
  have i1: "init h (a, w1) = (Inr (), (a, w1))" using ini by (simp add: init_done)
  have rq: "requests w = requests (snd s)" using assms(1) init_frame(1) [of h s] by simp
  show ?thesis
    using protect_cached [OF i1 assms(2,3,5,6)] protect_cached(1) [OF assms(1,2,3,4,6)] s1 r1 rq
    by simp
qed

theorem protect_twice_cached_witness:
  "requests (snd (snd (protect (example_host (\<lambda>n. None)) None (snd (protect (example_host (\<lambda>n. None)) None (session_alice, stored_page)))))) = []
   \<and> fst (protect (example_host (\<lambda>n. None)) None (snd (protect (example_host (\<lambda>n. None)) None (session_alice, stored_page)))) = Inr alice"
proof -
  let ?h = "example_host (\<lambda>n. None)"
  have i: "init ?h (session_alice, stored_page) = (Inr (), (session_alice, stored_page))"
    by (simp add: init_done session_alice_def)
  have t: "truthy_str (token session_alice)" by (simp add: session_alice_def)
  have u: "truthy (user session_alice)" by (simp add: session_alice_def alice_def)
  have o: "\<not> truthy_str None" by simp
  have c: "\<not> truthy_str (resourceId (config session_alice))" by (simp add: session_alice_def DEFAULT_CONFIG_def)
  have p: "fst (protect ?h None (session_alice, stored_page)) = Inr alice"
    by (simp add: run_defs example_defs)
  show ?thesis
    using protect_twice_cached [OF i t u o o c] p
    by (simp add: example_defs)
qed

section \<open>\<^verbatim>\<open>hasPermission\<close>\<close>

text \<open>
  C5, as the code has it. \<^verbatim>\<open>hasPermission(resourceId)\<close> with a non-empty resource, on a
  session that holds a token after initialisation, always sends one validation
  request, whose body carries the token and the resource, whatever is cached. It
  returns \<^verbatim>\<open>true\<close> exactly when the reply is valid, carries a user and has
  \<^verbatim>\<open>hasResourceAccess\<close> equal to \<^verbatim>\<open>true\<close>. A second call sends a second request as long
  as the session still holds a token, and the token is lost only when the first
  reply was an object that is not valid or has no user.
\<close>

theorem hasPermission_validates:
  assumes "init h s = (Inr (), (a, w))"
    and "truthy_str (token a)"
    and "truthy_str resource"
  shows "requests (snd (snd (hasPermission h resource s))) =
           requests (snd s) @ [(apiUrl (config a) @ ''/auth/validate'',
              post_json (json_stringify h (JObj [(''token'', str_val (token a)), (''resource'', str_val resource)])))]
       \<and> fst (hasPermission h resource s) =
           Inr (\<exists>d. net h (length (requests (snd s))) = Some (Response (Some d))
                    \<and> truthy (opt_member d ''valid'') \<and> truthy (opt_member d ''user'')
                    \<and> opt_member d ''hasResourceAccess'' = JBool True)
       \<and> (truthy_str (token (fst (snd (hasPermission h resource s)))) \<longrightarrow>
            length (requests (snd (snd (hasPermission h resource (snd (hasPermission h resource s))))))
              = length (requests (snd s)) + 2)
       \<and> (\<not> truthy_str (token (fst (snd (hasPermission h resource s)))) \<longrightarrow>
            (\<exists>d valid. net h (length (requests (snd s))) = Some (Response (Some d))
               \<and> member d ''valid'' = Inr valid
               \<and> \<not> (truthy valid \<and> truthy (opt_member d ''user''))))"
proof -
  have att: "\<not> truthy (user a) \<or> True \<or> truthy_str resource" by simp
  have rq: "requests w = requests (snd s)" using assms(1) init_frame(1) [of h s] by simp
  have r1: "requests (snd (snd (hasPermission h resource s))) =
           requests (snd s) @ [(apiUrl (config a) @ ''/auth/validate'',
              post_json (json_stringify h (JObj [(''token'', str_val (token a)), (''resource'', str_val resource)])))]"
    using getUser_requests [OF assms(1,2) att] assms(3) rq
    by (simp add: hasPermission_run [OF assms(1)] validate_body_def)
  have v: "fst (hasPermission h resource s) =
           Inr (\<exists>d. net h (length (requests (snd s))) = Some (Response (Some d))
                    \<and> truthy (opt_member d ''valid'') \<and> truthy (opt_member d ''user'')
                    \<and> opt_member d ''hasResourceAccess'' = JBool True)"
    using getUser_scoped_value [OF assms] rq by (simp add: hasPermission_run [OF assms(1)])
  have two: "length (requests (snd (snd (hasPermission h resource (snd (hasPermission h resource s))))))
              = length (requests (snd s)) + 2"
    if t: "truthy_str (token (fst (snd (hasPermission h resource s))))"
  proof -
    obtain a1 w1 where s1: "snd (getUser h True resource s) = (a1, w1)"
      by (cases "snd (getUser h True resource s)")
    have "initialized a1"
      using getUser_initialized [OF assms(1), of True resource] s1 by simp
    then have i1: "init h (a1, w1) = (Inr (), (a1, w1))" by (simp add: init_done)
    have t1: "truthy_str (token a1)" using t s1 by (simp add: hasPermission_run [OF assms(1)])
    have att1: "\<not> truthy (user a1) \<or> True \<or> truthy_str resource" by simp
    have "length (requests (snd (snd (getUser h True resource (a1, w1))))) = Suc (length (requests w1))"
      using getUser_requests [OF i1 t1 att1] by simp
    moreover have "length (requests w1) = Suc (length (requests (snd s)))"
      using r1 s1 by (simp add: hasPermission_run [OF assms(1)])
    ultimately show ?thesis using s1 by (simp add: hasPermission_run [OF assms(1)] hasPermission_run [OF i1])
  qed
  have lost: "\<exists>d valid. net h (length (requests (snd s))) = Some (Response (Some d))
               \<and> member d ''valid'' = Inr valid
               \<and> \<not> (truthy valid \<and> truthy (opt_member d ''user''))"
    if nt: "\<not> truthy_str (token (fst (snd (hasPermission h resource s))))"
  proof -
    have "token (fst (snd (getUser h True resource s))) \<noteq> token a"
      using nt assms(2) by (auto simp add: hasPermission_run [OF assms(1)])
    from getUser_token_changes [OF assms(1,2) att this] rq show ?thesis by simp
  qed
  from r1 v two lost show ?thesis by blast
qed

theorem hasPermission_validates_witness:
  "requests (snd (snd (hasPermission (example_host (\<lambda>n. Some (reply_valid [JBool True]))) (Some ''billing'') (session_alice, stored_page))))
     = [(''https://inmapper-otp-api.isohtel.com.tr/api/auth/validate'',
         post_json (stringify (JObj [(''token'', JStr ''T1''), (''resource'', JStr ''billing'')])))]
   \<and> fst (hasPermission (example_host (\<lambda>n. Some (reply_valid [JBool True]))) (Some ''billing'') (session_alice, stored_page)) = Inr True
   \<and> length (requests (snd (snd (hasPermission (example_host (\<lambda>n. Some (reply_valid [JBool True]))) (Some ''billing'')
        (snd (hasPermission (example_host (\<lambda>n. Some (reply_valid [JBool True]))) (Some ''billing'') (session_alice, stored_page))))))) = 2"
proof -
  let ?h = "example_host (\<lambda>n. Some (reply_valid [JBool True]))"
  have i: "init ?h (session_alice, stored_page) = (Inr (), (session_alice, stored_page))"
    by (simp add: init_done session_alice_def)
  have t: "truthy_str (token session_alice)" by (simp add: session_alice_def)
  have r: "truthy_str (Some ''billing'')" by simp
  have k: "truthy_str (token (fst (snd (hasPermission ?h (Some ''billing'') (session_alice, stored_page)))))"
    by (simp add: run_defs example_defs)
  have e: "\<exists>d. Some (reply_valid [JBool True]) = Some (Response (Some d))
                    \<and> truthy (opt_member d ''valid'') \<and> truthy (opt_member d ''user'')
                    \<and> opt_member d ''hasResourceAccess'' = JBool True"
    by (simp add: reply_valid_def opt_member_def alice_def)
  show ?thesis
    using hasPermission_validates [OF i t r] k e
    by (simp add: example_defs)
qed

text \<open>Without a token \<^verbatim>\<open>getUser\<close> returns before any request is made: on a new
  instance over an empty store, \<^verbatim>\<open>hasPermission('billing')\<close> sends nothing and
  answers \<^verbatim>\<open>false\<close>.\<close>

theorem hasPermission_without_token:
  "requests (snd (snd (hasPermission (example_host (\<lambda>n. Some (reply_valid [JBool True]))) (Some ''billing'')
       (new_auth DEFAULT_CONFIG, empty_page)))) = []
   \<and> fst (hasPermission (example_host (\<lambda>n. Some (reply_valid [JBool True]))) (Some ''billing'')
       (new_auth DEFAULT_CONFIG, empty_page)) = Inr False"
  by (simp add: run_defs example_defs)

section \<open>\<^verbatim>\<open>logout\<close>\<close>

text \<open>
  C6. \<^verbatim>\<open>logout(true)\<close> never throws, whatever the network and the store do: a rejected
  revocation request is caught. Afterwards token and user are \<^verbatim>\<open>null\<close> in memory and
  the page navigates to the login url with the current location as callback. Both
  keys are removed from the store when the store accepts the two removals.
\<close>

theorem logout_always_clears:
  "fst (logout h True s) = Inr ()
   \<and> token (fst (snd (logout h True s))) = None
   \<and> user (fst (snd (logout h True s))) = JNull
   \<and> events (snd (snd (logout h True s))) = events (snd s) @
        [Navigate (loginUrl (config (fst s)) @ ''?callback='' @ encodeURIComponent (location_href (snd s)))]
   \<and> (\<not> storage_fault h (store_ops (snd s)) \<and> \<not> storage_fault h (Suc (store_ops (snd s))) \<longrightarrow>
        items (snd (snd (logout h True s)))
          = (items (snd s))(tokenKey (config (fst s)) := None, userKey (config (fst s)) := None))"
  by (cases "net h (length (requests (snd s)))")
     (simp_all add: logout_def login_run window_fetch_def js_defs split_beta location_href_def
        clearAuth_result clearAuth_this clearAuth_frame clearAuth_items)

theorem logout_always_clears_witness:
  "fst (logout (example_host (\<lambda>n. None)) True (session_alice, stored_page)) = Inr ()
   \<and> token (fst (snd (logout (example_host (\<lambda>n. None)) True (session_alice, stored_page)))) = None
   \<and> user (fst (snd (logout (example_host (\<lambda>n. None)) True (session_alice, stored_page)))) = JNull
   \<and> events (snd (snd (logout (example_host (\<lambda>n. None)) True (session_alice, stored_page))))
        = [Navigate ''https://inmapper-otp.netlify.app/login?callback=https%3A%2F%2Fapp.example.com%2Fdashboard'']
   \<and> items (snd (snd (logout (example_host (\<lambda>n. None)) True (session_alice, stored_page)))) ''inmapper_auth_token'' = None
   \<and> items (snd (snd (logout (example_host (\<lambda>n. None)) True (session_alice, stored_page)))) ''inmapper_auth_user'' = None"
  using logout_always_clears [of "example_host (\<lambda>n. None)" "(session_alice, stored_page)"]
  by (simp add: example_defs location_href_def encodeURIComponent_def unreserved_def hexdigit_def)

section \<open>\<^verbatim>\<open>getUser\<close> after \<^verbatim>\<open>setToken\<close>\<close>

text \<open>The one exception that leaves the session manager is the SecurityError of
  \<^verbatim>\<open>replaceState\<close>: \<^verbatim>\<open>setToken(T)\<close> followed by \<^verbatim>\<open>getUser()\<close> returns \<^verbatim>\<open>null\<close>, or the user
  that the session then holds, or ends with that exception.\<close>

lemma replaceState_exn: "fst (replaceState h u s) = Inl e \<Longrightarrow> e = SecurityError"
  by (auto simp add: replaceState_def js_defs split: option.splits if_splits)

lemma handleCallbackToken_exn: "fst (handleCallbackToken h s) = Inl e \<Longrightarrow> e = SecurityError"
  by (auto simp add: handleCallbackToken_def js_defs Let_def split_beta saveToStorage_result
        split: if_splits sum.splits dest: replaceState_exn)

lemma getUser_after_setToken_outcome:
  "fst (js_seq (setToken h t) (getUser h False None) s) = Inl SecurityError
   \<or> fst (js_seq (setToken h t) (getUser h False None) s) = Inr JNull
   \<or> (fst (js_seq (setToken h t) (getUser h False None) s)
         = Inr (user (fst (snd (js_seq (setToken h t) (getUser h False None) s))))
      \<and> truthy (user (fst (snd (js_seq (setToken h t) (getUser h False None) s)))))"
proof -
  obtain a w where s: "s = (a, w)" by (cases s)
  let ?s1 = "(a\<lparr>token := t, user := JNull\<rparr>,
      snd (snd (saveToStorage h (a\<lparr>token := t, user := JNull\<rparr>, w))))"
  have seq: "js_seq (setToken h t) (getUser h False None) (a, w) = getUser h False None ?s1"
    by (simp add: js_seq_def js_bind_def setToken_run)
  show ?thesis
  proof (cases "fst (init h ?s1)")
    case (Inl e)
    then have "e = SecurityError"
      using init_thrown [of h ?s1 e] handleCallbackToken_exn by blast
    with Inl getUser_thrown [of h ?s1 e False None] show ?thesis
      by (simp add: s seq)
  next
    case (Inr u)
    then obtain a1 w1 where "init h ?s1 = (Inr (), (a1, w1))"
      by (cases "init h ?s1") auto
    from getUser_plain [OF this, of False] show ?thesis
      by (simp add: s seq)
  qed
qed

text \<open>
  C7. \<^verbatim>\<open>getUser()\<close> after \<^verbatim>\<open>setToken(T)\<close> is to return a user or \<^verbatim>\<open>null\<close> and never to
  throw. Every access to the store and to the network is inside a \<^verbatim>\<open>try\<close>, but the call
  of \<^verbatim>\<open>replaceState\<close> in the interceptor is not. On a page whose path begins with two
  slashes and whose URL carries a token, the rewritten reference names another origin;
  \<^verbatim>\<open>replaceState\<close> throws, and the exception passes through \<^verbatim>\<open>init\<close> and \<^verbatim>\<open>getUser\<close> to
  the caller.
\<close>

theorem getUser_after_setToken_throws:
  "fst (js_seq (setToken (example_host (\<lambda>n. None)) (Some ''T''))
               (getUser (example_host (\<lambda>n. None)) False None)
          (new_auth DEFAULT_CONFIG, empty_page\<lparr>url := ''//foo?token=X''\<rparr>)) = Inl SecurityError"
  by (simp add: run_defs example_defs)

text \<open>And the value returned need not be what the server says of the token: on a new
  instance over a store that holds a user, it is that stored user, with no request
  made, as in C2.\<close>

lemma getUser_after_setToken_stale:
  "fst (js_seq (setToken (example_host (\<lambda>n. Some reply_invalid)) (Some ''T2''))
               (getUser (example_host (\<lambda>n. Some reply_invalid)) False None)
          (new_auth DEFAULT_CONFIG, stored_page)) = Inr alice
   \<and> requests (snd (snd (js_seq (setToken (example_host (\<lambda>n. Some reply_invalid)) (Some ''T2''))
               (getUser (example_host (\<lambda>n. Some reply_invalid)) False None)
          (new_auth DEFAULT_CONFIG, stored_page)))) = []"
  by (simp add: run_defs example_defs)

section \<open>The authenticated \<^verbatim>\<open>fetch\<close>\<close>

lemma map_of_replace:
  "map_of (map (\<lambda>kv. if fst kv = k then (k, v) else kv) kvs) k'
     = (if k' = k then (case map_of kvs k of None \<Rightarrow> None | Some x \<Rightarrow> Some v) else map_of kvs k')"
  by (induction kvs) (auto split: option.splits)

lemma obj_set_lookup:
  "map_of (obj_set kvs k v) k' = (if k' = k then Some v else map_of kvs k')"
proof (cases "k \<in> fst ` set kvs")
  case False
  then have "map_of kvs k = None" by (simp add: map_of_eq_None_iff)
  then show ?thesis using False by (auto simp add: obj_set_def map_add_def split: option.splits)
next
  case True
  then have "map_of kvs k \<noteq> None" by (simp add: map_of_eq_None_iff)
  with True show ?thesis by (auto simp add: obj_set_def map_of_replace)
qed

lemma obj_set_keys:
  "map fst (obj_set kvs k v) = (if k \<in> fst ` set kvs then map fst kvs else map fst kvs @ [k])"
  by (auto simp add: obj_set_def comp_def intro!: map_cong)

lemma fetch_request:
  "\<exists>i. requests (snd (snd (fetch h u options s))) = requests (snd s) @ [(u, i)]
      \<and> ri_method i = o_method options \<and> ri_body i = o_body options
      \<and> ri_headers i = obj_set (spread (o_headers options)) ''Authorization''
                          (''Bearer '' @ render (token (fst s)))"
  by (cases "net h (length (requests (snd s)))")
     (auto simp add: fetch_def window_fetch_def js_defs)

text \<open>
  C10, as the code has it. \<^verbatim>\<open>fetch(url, options)\<close> hands one request to the global
  \<^verbatim>\<open>fetch\<close>, with the caller's url, method and body. In its \<^verbatim>\<open>headers\<close> object the
  property \<^verbatim>\<open>Authorization\<close> is \<^verbatim>\<open>Bearer\<close>, a space and the current token, and
  \<^verbatim>\<open>Bearer null\<close> when no token is held; a property of exactly that name given by the
  caller is replaced. Of a plain object of headers every property of another name is
  passed on as the caller gave it, also one that differs from \<^verbatim>\<open>Authorization\<close> only in
  the case of its letters. Given no headers, or a \<^verbatim>\<open>Headers\<close> instance, the object holds
  \<^verbatim>\<open>Authorization\<close> alone; given an array of pairs, it holds beside it the pairs under
  their indices.
\<close>

theorem fetch_authorization:
  "\<exists>i. requests (snd (snd (fetch h u options s))) = requests (snd s) @ [(u, i)]
      \<and> ri_method i = o_method options \<and> ri_body i = o_body options
      \<and> (\<forall>t. token (fst s) = Some t \<longrightarrow> map_of (ri_headers i) ''Authorization'' = Some (''Bearer '' @ t))
      \<and> (token (fst s) = None \<longrightarrow> map_of (ri_headers i) ''Authorization'' = Some ''Bearer null'')
      \<and> (\<forall>kvs. o_headers options = HeadersObject kvs \<longrightarrow>
            (\<forall>k. k \<noteq> ''Authorization'' \<longrightarrow> map_of (ri_headers i) k = map_of kvs k)
          \<and> (distinct (map fst kvs) \<longrightarrow> distinct (map fst (ri_headers i))))
      \<and> (o_headers options = NoHeaders \<or> (\<exists>kvs. o_headers options = HeadersInstance kvs) \<longrightarrow>
            map fst (ri_headers i) = [''Authorization''])
      \<and> (\<forall>ps. o_headers options = HeadersPairs ps \<longrightarrow>
            (\<forall>k. k \<noteq> ''Authorization'' \<longrightarrow>
               map_of (ri_headers i) k
                 = map_of (map (\<lambda>ip. (show_nat (fst ip), fst (snd ip) @ '','' @ snd (snd ip)))
                               (enumerate 0 ps)) k))"
proof -
  from fetch_request [of h u options s] obtain i where
    r: "requests (snd (snd (fetch h u options s))) = requests (snd s) @ [(u, i)]"
    and m: "ri_method i = o_method options" "ri_body i = o_body options"
    and hs: "ri_headers i = obj_set (spread (o_headers options)) ''Authorization''
                          (''Bearer '' @ render (token (fst s)))"
    by blast
  have a: "\<forall>t. token (fst s) = Some t \<longrightarrow> map_of (ri_headers i) ''Authorization'' = Some (''Bearer '' @ t)"
    by (simp add: hs obj_set_lookup)
  have b: "token (fst s) = None \<longrightarrow> map_of (ri_headers i) ''Authorization'' = Some ''Bearer null''"
    by (simp add: hs obj_set_lookup)
  have c: "\<forall>kvs. o_headers options = HeadersObject kvs \<longrightarrow>
            (\<forall>k. k \<noteq> ''Authorization'' \<longrightarrow> map_of (ri_headers i) k = map_of kvs k)
          \<and> (distinct (map fst kvs) \<longrightarrow> distinct (map fst (ri_headers i)))"
    by (simp add: hs obj_set_lookup obj_set_keys)
  have d: "o_headers options = NoHeaders \<or> (\<exists>kvs. o_headers options = HeadersInstance kvs) \<longrightarrow>
            map fst (ri_headers i) = [''Authorization'']"
    by (auto simp add: hs obj_set_keys)
  have e: "\<forall>ps. o_headers options = HeadersPairs ps \<longrightarrow>
            (\<forall>k. k \<noteq> ''Authorization'' \<longrightarrow>
               map_of (ri_headers i) k
                 = map_of (map (\<lambda>ip. (show_nat (fst ip), fst (snd ip) @ '','' @ snd (snd ip)))
                               (enumerate 0 ps)) k)"
    by (simp add: hs obj_set_lookup)
  show ?thesis
    by (rule exI [of _ i]) (intro conjI r m a b c d e)
qed

theorem fetch_authorization_witness:
  "requests (snd (snd (fetch (example_host (\<lambda>n. None)) ''https://api.example.com/x''
       \<lparr> o_method = Some ''GET'',
         o_headers = HeadersObject [(''Authorization'', ''Basic abc''), (''Accept'', ''text/plain'')],
         o_body = None \<rparr>
       (session_T1, stored_page))))
   = [(''https://api.example.com/x'',
       \<lparr> ri_method = Some ''GET'',
         ri_headers = [(''Authorization'', ''Bearer T1''), (''Accept'', ''text/plain'')],
         ri_body = None \<rparr>)]
   \<and> requests (snd (snd (fetch (example_host (\<lambda>n. None)) ''https://api.example.com/x''
       \<lparr> o_method = None, o_headers = NoHeaders, o_body = None \<rparr>
       (new_auth DEFAULT_CONFIG, empty_page))))
   = [(''https://api.example.com/x'',
       \<lparr> ri_method = None, ri_headers = [(''Authorization'', ''Bearer null'')], ri_body = None \<rparr>)]"
  using fetch_authorization [of "example_host (\<lambda>n. None)" "''https://api.example.com/x''"
       "\<lparr> o_method = Some ''GET'',
          o_headers = HeadersObject [(''Authorization'', ''Basic abc''), (''Accept'', ''text/plain'')],
          o_body = None \<rparr>"
       "(session_T1, stored_page)"]
    fetch_authorization [of "example_host (\<lambda>n. None)" "''https://api.example.com/x''"
       "\<lparr> o_method = None, o_headers = NoHeaders, o_body = None \<rparr>"
       "(new_auth DEFAULT_CONFIG, empty_page)"]
  by (simp add: fetch_def window_fetch_def js_defs obj_set_def example_defs new_auth_def)

text \<open>So a header that the caller wrote \<^verbatim>\<open>authorization\<close> is not overwritten: the
  object carries both properties and, header names not distinguishing case, the
  request carries both values under the one header.\<close>

theorem fetch_keeps_lowercase_authorization:
  "map (\<lambda>r. ri_headers (snd r))
     (requests (snd (snd (fetch (example_host (\<lambda>n. None)) ''https://api.example.com/x''
       \<lparr> o_method = None, o_headers = HeadersObject [(''authorization'', ''Basic abc'')], o_body = None \<rparr>
       (session_T1, stored_page)))))
   = [[(''authorization'', ''Basic abc''), (''Authorization'', ''Bearer T1'')]]
   \<and> map (\<lambda>r. sent_header (ri_headers (snd r)) ''Authorization'')
     (requests (snd (snd (fetch (example_host (\<lambda>n. None)) ''https://api.example.com/x''
       \<lparr> o_method = None, o_headers = HeadersObject [(''authorization'', ''Basic abc'')], o_body = None \<rparr>
       (session_T1, stored_page)))))
   = [Some ''Basic abc, Bearer T1'']"
  by (simp add: fetch_def window_fetch_def js_defs obj_set_def sent_header_def ascii_lower_def
        example_defs)

section \<open>The callback interceptor\<close>

text \<open>The query string as a list of pieces joined by \<^verbatim>\<open>&\<close>, and what the two readers of
  it (\<^verbatim>\<open>URLSearchParams\<close> and the regular expression) make of the pieces.\<close>

lemma join_amp_Cons: "join_with ''&'' (x # xs) = x @ concat (map (\<lambda>s. CHR ''&'' # s) xs)"
  by (induction xs arbitrary: x) simp_all

lemma join_amp_append:
  "pre \<noteq> [] \<Longrightarrow> join_with ''&'' (pre @ post) = join_with ''&'' pre @ concat (map (\<lambda>s. CHR ''&'' # s) post)"
  by (cases pre) (simp_all add: join_amp_Cons)

lemma split_on_append:
  "CHR ''&'' \<notin> set x \<Longrightarrow> split_on CHR ''&'' (x @ CHR ''&'' # rest) = x # split_on CHR ''&'' rest"
  by (induction x) (auto split: list.splits)

lemma split_on_whole: "CHR ''&'' \<notin> set x \<Longrightarrow> split_on CHR ''&'' x = [x]"
  by (induction x) (auto split: list.splits)

lemma split_on_join:
  "\<forall>seg\<in>set (x # xs). CHR ''&'' \<notin> set seg \<Longrightarrow>
   split_on CHR ''&'' (x @ concat (map (\<lambda>s. CHR ''&'' # s) xs)) = x # xs"
proof (induction xs arbitrary: x)
  case Nil
  then show ?case by (simp add: split_on_whole)
next
  case (Cons y ys)
  then show ?case by (simp add: split_on_append)
qed

lemma percent_decode_empty: "percent_decode s = [] \<longleftrightarrow> s = []"
  by (induction s rule: percent_decode.induct) (auto split: option.splits)

lemma utf8_decode_empty: "utf8_decode s = [] \<longleftrightarrow> s = []"
proof (cases s)
  case Nil
  then show ?thesis by simp
next
  case (Cons b bs)
  have "utf8_decode (b # bs) \<noteq> []"
    by (simp add: Let_def FFFD_def split: list.splits)
  with Cons show ?thesis by simp
qed

lemma form_decode_empty: "form_decode s = [] \<longleftrightarrow> s = []"
  by (simp add: form_decode_def percent_decode_empty utf8_decode_empty)

lemma form_decode_token: "form_decode ''token'' = ''token''"
  by (simp add: form_decode_def)

lemma parse_pair_token: "parse_pair (''token='' @ v) = (''token'', form_decode v)"
  by (simp add: parse_pair_def form_decode_token)

lemma usp_get_first:
  assumes "\<forall>seg\<in>set pre. form_decode (takeWhile (\<lambda>c. c \<noteq> CHR ''='') seg) \<noteq> ''token''"
  shows "map_of (map parse_pair (filter (\<lambda>seg. seg \<noteq> []) (pre @ (''token='' @ v) # post))) ''token''
           = Some (form_decode v)"
  using assms
proof (induction pre)
  case Nil
  have "map parse_pair (filter (\<lambda>seg. seg \<noteq> []) ([] @ (''token='' @ v) # post))
        = (''token'', form_decode v) # map parse_pair (filter (\<lambda>seg. seg \<noteq> []) post)"
    using parse_pair_token [of v] by simp
  then show ?case by (simp only: map_of.simps fst_conv snd_conv fun_upd_same)
next
  case (Cons p ps)
  let ?X = "(''token='' @ v) # post"
  have ih: "map_of (map parse_pair (filter (\<lambda>seg. seg \<noteq> []) (ps @ ?X))) ''token'' = Some (form_decode v)"
    by (rule Cons.IH) (use Cons.prems in simp)
  show ?case
  proof (cases "p = []")
    case True
    then have "filter (\<lambda>seg. seg \<noteq> []) ((p # ps) @ ?X) = filter (\<lambda>seg. seg \<noteq> []) (ps @ ?X)"
      by simp
    then show ?thesis using ih by (simp only:)
  next
    case False
    then have e: "map parse_pair (filter (\<lambda>seg. seg \<noteq> []) ((p # ps) @ ?X))
        = parse_pair p # map parse_pair (filter (\<lambda>seg. seg \<noteq> []) (ps @ ?X))"
      by simp
    have "fst (parse_pair p) \<noteq> ''token''"
      using Cons.prems by (simp add: parse_pair_def)
    then have "map_of (parse_pair p # rest) ''token'' = map_of rest ''token''" for rest
      by (cases "parse_pair p") simp
    then show ?thesis using ih by (simp only: e)
  qed
qed

lemma take6_prefix:
  assumes "take 6 (seg @ rest) = ''token=''" and "rest = [] \<or> hd rest = CHR ''&''"
  shows "seg = ''token='' @ drop 6 seg"
proof -
  have len: "6 \<le> length (seg @ rest)"
  proof -
    have "length (take 6 (seg @ rest)) = 6" using assms(1) by simp
    then show ?thesis by simp
  qed
  have "6 \<le> length seg"
  proof (rule ccontr)
    assume "\<not> 6 \<le> length seg"
    then have l: "length seg < 6" by simp
    with len have ne: "rest \<noteq> []" by auto
    with assms(2) have r: "hd rest = CHR ''&''" by simp
    have "take 6 (seg @ rest) ! length seg = (seg @ rest) ! length seg"
      by (rule nth_take) (rule l)
    also have "\<dots> = hd rest" using ne by (simp add: nth_append hd_conv_nth)
    finally have at: "''token='' ! length seg = CHR ''&''" using assms(1) r by simp
    from l have "length seg = 0 \<or> length seg = 1 \<or> length seg = 2 \<or> length seg = 3
        \<or> length seg = 4 \<or> length seg = 5" by arith
    with at show False by auto
  qed
  then have "take 6 seg = ''token=''" using assms(1) by simp
  then show ?thesis
    using append_take_drop_id [of 6 seg] by simp
qed

text \<open>A piece in which \<^verbatim>\<open>?token=\<close> is never followed by a character gives the regular
  expression nothing to match.\<close>

lemma replace_token_inert:
  assumes "\<forall>c\<in>set seg. c \<noteq> CHR ''&''"
    and "\<forall>ys zs. seg = ys @ ''?token='' @ zs \<longrightarrow> zs = []"
    and "rest = [] \<or> hd rest = CHR ''&''"
  shows "replace_token (seg @ rest) = seg @ replace_token rest"
  using assms(1,2)
proof (induction seg)
  case Nil
  then show ?case by simp
next
  case (Cons c cs)
  have inner: "\<forall>ys zs. cs = ys @ ''?token='' @ zs \<longrightarrow> zs = []"
  proof (intro allI impI)
    fix ys zs assume "cs = ys @ ''?token='' @ zs"
    then have "c # cs = (c # ys) @ ''?token='' @ zs" by simp
    with Cons.prems(2) show "zs = []" by blast
  qed
  have ih: "replace_token (cs @ rest) = cs @ replace_token rest"
    using Cons.prems(1) inner by (intro Cons.IH) simp_all
  have nomatch: "\<not> (c = CHR ''?'' \<and> take 6 (cs @ rest) = ''token=''
        \<and> takeWhile (\<lambda>x. x \<noteq> CHR ''&'') (drop 6 (cs @ rest)) \<noteq> [])"
  proof
    assume m: "c = CHR ''?'' \<and> take 6 (cs @ rest) = ''token=''
        \<and> takeWhile (\<lambda>x. x \<noteq> CHR ''&'') (drop 6 (cs @ rest)) \<noteq> []"
    then have p: "cs = ''token='' @ drop 6 cs"
      using take6_prefix [OF _ assms(3), of cs] by blast
    then have "c # cs = [] @ ''?token='' @ drop 6 cs" using m by simp
    with Cons.prems(2) have z: "drop 6 cs = []" by blast
    have "length cs = length (''token='' @ drop 6 cs)" by (rule arg_cong [OF p])
    then have "6 \<le> length cs" by simp
    then have "drop 6 (cs @ rest) = rest" using z by simp
    moreover have "takeWhile (\<lambda>x. x \<noteq> CHR ''&'') rest = []"
      using assms(3) by (cases rest) simp_all
    ultimately show False using m by simp
  qed
  have "c \<noteq> CHR ''&''" using Cons.prems(1) by simp
  with nomatch have "replace_token (c # cs @ rest) = c # replace_token (cs @ rest)"
    by auto
  with ih show ?case by simp
qed

lemma replace_token_piece:
  assumes "c = CHR ''?'' \<or> c = CHR ''&''"
    and "\<forall>x\<in>set seg. x \<noteq> CHR ''&''"
    and "\<forall>ys zs. seg = ys @ ''?token='' @ zs \<longrightarrow> zs = []"
    and "form_decode (takeWhile (\<lambda>c. c \<noteq> CHR ''='') seg) \<noteq> ''token''"
    and "rest = [] \<or> hd rest = CHR ''&''"
  shows "replace_token (c # seg @ rest) = c # seg @ replace_token rest"
proof -
  have "take 6 (seg @ rest) \<noteq> ''token=''"
  proof
    assume "take 6 (seg @ rest) = ''token=''"
    from take6_prefix [OF this assms(5)] obtain t where "seg = ''token='' @ t" ..
    then have "takeWhile (\<lambda>c. c \<noteq> CHR ''='') seg = ''token''" by simp
    with assms(4) form_decode_token show False by simp
  qed
  then have "replace_token (c # seg @ rest) = c # replace_token (seg @ rest)" by simp
  then show ?thesis using replace_token_inert [OF assms(2,3,5)] by simp
qed

lemma replace_token_hit:
  assumes "c = CHR ''?'' \<or> c = CHR ''&''"
    and "v \<noteq> []" and "\<forall>x\<in>set v. x \<noteq> CHR ''&''"
    and "rest = [] \<or> hd rest = CHR ''&''"
  shows "replace_token (c # ''token='' @ v @ rest) = rest"
proof -
  have t: "takeWhile (\<lambda>x. x \<noteq> CHR ''&'') (v @ rest) = v"
    using assms(3,4) by (cases rest) (simp_all add: takeWhile_tail)
  have d: "dropWhile (\<lambda>x. x \<noteq> CHR ''&'') (v @ rest) = rest"
    using assms(3,4) by (cases rest) (simp_all add: dropWhile_append3)
  show ?thesis using assms(1,2) t d by simp
qed

lemma amp_all_head: "concat (map (\<lambda>s. CHR ''&'' # s) xs) = [] \<or> hd (concat (map (\<lambda>s. CHR ''&'' # s) xs)) = CHR ''&''"
  by (cases xs) simp_all

lemma replace_token_query:
  assumes "c = CHR ''?'' \<or> c = CHR ''&''"
    and "\<forall>seg\<in>set pre. (\<forall>x\<in>set seg. x \<noteq> CHR ''&'')
           \<and> (\<forall>ys zs. seg = ys @ ''?token='' @ zs \<longrightarrow> zs = [])
           \<and> form_decode (takeWhile (\<lambda>c. c \<noteq> CHR ''='') seg) \<noteq> ''token''"
    and "v \<noteq> []" and "\<forall>x\<in>set v. x \<noteq> CHR ''&''"
  shows "replace_token (c # join_with ''&'' (pre @ (''token='' @ v) # post))
           = (if pre = [] then concat (map (\<lambda>s. CHR ''&'' # s) post)
              else c # join_with ''&'' pre @ concat (map (\<lambda>s. CHR ''&'' # s) post))"
  using assms(1,2)
proof (induction pre arbitrary: c)
  case Nil
  then show ?case
    using replace_token_hit [OF Nil(1) assms(3,4) amp_all_head [of post]]
    by (simp add: join_amp_Cons)
next
  case (Cons p ps)
  let ?rest = "concat (map (\<lambda>s. CHR ''&'' # s) (ps @ (''token='' @ v) # post))"
  have h: "?rest = [] \<or> hd ?rest = CHR ''&''" by (rule amp_all_head)
  have r: "?rest = CHR ''&'' # join_with ''&'' (ps @ (''token='' @ v) # post)"
    by (cases ps) (simp_all add: join_amp_Cons)
  have "replace_token (c # join_with ''&'' ((p # ps) @ (''token='' @ v) # post))
        = replace_token (c # p @ ?rest)"
    by (simp add: join_amp_Cons)
  also have "\<dots> = c # p @ replace_token ?rest"
  proof (rule replace_token_piece)
    show "c = CHR ''?'' \<or> c = CHR ''&''" by (rule Cons.prems(1))
    show "\<forall>x\<in>set p. x \<noteq> CHR ''&''" using Cons.prems(2) by simp
    show "\<forall>ys zs. p = ys @ ''?token='' @ zs \<longrightarrow> zs = []" using Cons.prems(2) by simp
    show "form_decode (takeWhile (\<lambda>c. c \<noteq> CHR ''='') p) \<noteq> ''token''" using Cons.prems(2) by simp
    show "?rest = [] \<or> hd ?rest = CHR ''&''" by (rule h)
  qed
  also have "replace_token ?rest
      = (if ps = [] then concat (map (\<lambda>s. CHR ''&'' # s) post)
         else CHR ''&'' # join_with ''&'' ps @ concat (map (\<lambda>s. CHR ''&'' # s) post))"
    unfolding r using Cons.prems by (intro Cons.IH) simp_all
  finally show ?case by (cases ps) (simp_all add: join_amp_Cons)
qed

lemma set_join_amp:
  "set (join_with ''&'' (x # xs)) \<subseteq> insert CHR ''&'' (set x \<union> (\<Union>seg\<in>set xs. set seg))"
  by (auto simp add: join_amp_Cons)

lemma saveToStorage_token_item:
  assumes "truthy_str (token (fst s))" and "\<not> truthy (user (fst s))"
    and "\<not> storage_fault h (store_ops (snd s))"
  shows "items (snd (snd (saveToStorage h s))) (tokenKey (config (fst s))) = Some (render (token (fst s)))"
  using assms by (simp add: saveToStorage_def js_defs storage_defs Let_def)

lemma location_of_url:
  assumes "url w = path @ CHR ''?'' # q @ frag"
    and "\<forall>c\<in>set path. c \<noteq> CHR ''?'' \<and> c \<noteq> CHR ''#''"
    and "CHR ''#'' \<notin> set q" and "q \<noteq> []"
    and "frag = [] \<or> hd frag = CHR ''#''"
  shows "location_pathname w = path" and "location_search w = CHR ''?'' # q"
proof -
  show "location_pathname w = path"
    using assms(1,2) by (simp add: location_pathname_def takeWhile_tail)
  have d: "dropWhile (\<lambda>c. c \<noteq> CHR ''?'' \<and> c \<noteq> CHR ''#'') (url w) = CHR ''?'' # q @ frag"
    using assms(1,2) by (simp add: dropWhile_append2)
  have "takeWhile (\<lambda>c. c \<noteq> CHR ''#'') (q @ frag) = q"
    using assms(3,5) by (cases frag) (auto simp add: takeWhile_tail takeWhile_eq_all_conv)
  then have t: "takeWhile (\<lambda>c. c \<noteq> CHR ''#'') (CHR ''?'' # q @ frag) = CHR ''?'' # q"
    by simp
  show "location_search w = CHR ''?'' # q"
    using assms(4) by (simp add: location_search_def d t del: takeWhile.simps)
qed

lemma plain_path_append:
  "plain_path path \<Longrightarrow> rest = [] \<or> hd rest = CHR ''?'' \<Longrightarrow> plain_path (path @ rest)"
  by (cases path; cases rest) (auto simp add: plain_path_def split: list.splits)

text \<open>
  C3, as the code has it. Take a URL whose path does not begin with two slashes and
  whose query string has a piece spelled \<^verbatim>\<open>token=v\<close> with \<open>v\<close> not empty, where no
  earlier piece has the (decoded) name \<^verbatim>\<open>token\<close> or contains \<^verbatim>\<open>?token=\<close> followed by a
  character. The interceptor returns normally and adopts the decoded \<open>v\<close> as the token,
  whatever token was held. The visible URL becomes the path followed by the other
  pieces, byte for byte, joined by \<^verbatim>\<open>&\<close> after a \<^verbatim>\<open>?\<close> (nothing after the path when no
  piece is left); a fragment is not kept. The token is stored under the token key
  when the store accepts the write and no user is cached yet, as is the case when
  \<^verbatim>\<open>init\<close> calls the interceptor.
\<close>

theorem callback_token_adopted:
  assumes u: "url w = path @ ''?'' @ join_with ''&'' (pre @ (''token='' @ v) # post) @ frag"
    and frag: "frag = [] \<or> hd frag = CHR ''#''"
    and plain: "plain_path path"
    and path: "\<forall>c\<in>set path. c \<noteq> CHR ''?'' \<and> c \<noteq> CHR ''#''"
    and pre: "\<forall>seg\<in>set pre. (\<forall>x\<in>set seg. x \<noteq> CHR ''&'' \<and> x \<noteq> CHR ''#'')
                \<and> (\<forall>ys zs. seg = ys @ ''?token='' @ zs \<longrightarrow> zs = [])
                \<and> form_decode (takeWhile (\<lambda>c. c \<noteq> CHR ''='') seg) \<noteq> ''token''"
    and v: "v \<noteq> []" "\<forall>x\<in>set v. x \<noteq> CHR ''&'' \<and> x \<noteq> CHR ''#''"
    and post: "\<forall>seg\<in>set post. \<forall>x\<in>set seg. x \<noteq> CHR ''&'' \<and> x \<noteq> CHR ''#''"
  shows "fst (handleCallbackToken h (a, w)) = Inr ()
       \<and> token (fst (snd (handleCallbackToken h (a, w)))) = Some (form_decode v)
       \<and> (\<not> storage_fault h (store_ops w) \<and> \<not> truthy (user a) \<longrightarrow>
            items (snd (snd (handleCallbackToken h (a, w)))) (tokenKey (config a)) = Some (form_decode v))
       \<and> url (snd (snd (handleCallbackToken h (a, w))))
            = path @ (if pre @ post = [] then [] else ''?'' @ join_with ''&'' (pre @ post))"
proof -
  define tok where "tok = ''token='' @ v"
  define segs where "segs = pre @ tok # post"
  define q where "q = join_with ''&'' segs"
  let ?t = "form_decode v"
  let ?a = "a\<lparr>token := Some ?t\<rparr>"
  have tokc: "CHR ''&'' \<notin> set tok" "CHR ''#'' \<notin> set tok"
  proof -
    have "CHR ''&'' \<notin> set ''token=''" "CHR ''#'' \<notin> set ''token=''" by simp_all
    moreover have "CHR ''&'' \<notin> set v" "CHR ''#'' \<notin> set v" using v(2) by blast+
    ultimately show "CHR ''&'' \<notin> set tok" "CHR ''#'' \<notin> set tok"
      unfolding tok_def set_append by blast+
  qed
  have mem: "seg \<in> set pre \<or> seg = tok \<or> seg \<in> set post" if "seg \<in> set segs" for seg
    using that by (simp add: segs_def) blast
  have noamp: "\<forall>seg\<in>set segs. CHR ''&'' \<notin> set seg"
  proof
    fix seg assume "seg \<in> set segs"
    from mem [OF this] show "CHR ''&'' \<notin> set seg"
      using pre post tokc(1) by blast
  qed
  have nohash: "\<forall>seg\<in>set segs. CHR ''#'' \<notin> set seg"
  proof
    fix seg assume "seg \<in> set segs"
    from mem [OF this] show "CHR ''#'' \<notin> set seg"
      using pre post tokc(2) by blast
  qed
  obtain x xs where sx: "segs = x # xs" by (cases segs) (simp_all add: segs_def)
  have tokne: "tok \<noteq> []" by (simp add: tok_def)
  have qne: "q \<noteq> []"
    using tokne by (cases pre) (simp_all add: q_def segs_def join_amp_Cons)
  have qhash: "CHR ''#'' \<notin> set q"
  proof
    assume "CHR ''#'' \<in> set q"
    then have "CHR ''#'' \<in> insert CHR ''&'' (set x \<union> (\<Union>seg\<in>set xs. set seg))"
      using set_join_amp [of x xs] by (auto simp add: q_def sx)
    then show False using nohash by (auto simp add: sx)
  qed
  have u': "url w = path @ CHR ''?'' # q @ frag" using u by (simp add: q_def segs_def tok_def)
  note loc = location_of_url [OF u' path qhash qne frag]
  have split: "split_on CHR ''&'' q = segs"
    using split_on_join [of x xs] noamp by (simp add: q_def sx join_amp_Cons)
  have "map_of (map parse_pair (filter (\<lambda>seg. seg \<noteq> []) segs)) ''token'' = Some ?t"
    unfolding segs_def tok_def by (rule usp_get_first) (use pre in blast)
  then have get: "usp_get (URLSearchParams (location_search w)) ''token'' = Some ?t"
    by (simp add: loc(2) URLSearchParams_def usp_get_def split)
  have tne: "form_decode v \<noteq> []" using v(1) by (simp add: form_decode_empty)
  have "replace_token (CHR ''?'' # join_with ''&'' (pre @ (''token='' @ v) # post))
      = (if pre = [] then concat (map (\<lambda>s. CHR ''&'' # s) post)
         else CHR ''?'' # join_with ''&'' pre @ concat (map (\<lambda>s. CHR ''&'' # s) post))"
  proof (rule replace_token_query)
    show "CHR ''?'' = CHR ''?'' \<or> CHR ''?'' = CHR ''&''" by simp
    show "\<forall>seg\<in>set pre. (\<forall>x\<in>set seg. x \<noteq> CHR ''&'')
           \<and> (\<forall>ys zs. seg = ys @ ''?token='' @ zs \<longrightarrow> zs = [])
           \<and> form_decode (takeWhile (\<lambda>c. c \<noteq> CHR ''='') seg) \<noteq> ''token''"
      using pre by blast
    show "v \<noteq> []" by (rule v(1))
    show "\<forall>x\<in>set v. x \<noteq> CHR ''&''" using v(2) by blast
  qed
  then have rt: "replace_token (location_search w)
      = (if pre = [] then concat (map (\<lambda>s. CHR ''&'' # s) post)
         else CHR ''?'' # join_with ''&'' pre @ concat (map (\<lambda>s. CHR ''&'' # s) post))"
    by (simp only: loc(2) q_def segs_def tok_def)
  define cl where "cl = (if pre @ post = [] then [] else ''?'' @ join_with ''&'' (pre @ post))"
  have clean: "replace_leading_amp (replace_token (location_search w)) = cl"
  proof (cases pre)
    case Nil
    then show ?thesis unfolding rt cl_def by (cases post) (simp_all add: join_amp_Cons)
  next
    case (Cons p ps)
    then show ?thesis unfolding rt cl_def by (simp add: join_amp_Cons)
  qed
  have clq: "cl = [] \<or> hd cl = CHR ''?''" by (simp add: cl_def)
  have pl: "plain_path (path @ cl)" by (rule plain_path_append [OF plain clq])
  have pne: "path @ cl \<noteq> []" using plain by (auto simp add: plain_path_def)
  define w1 where "w1 = snd (snd (saveToStorage h (?a, w)))"
  have l1: "location_search w1 = location_search w" "location_pathname w1 = location_pathname w"
    by (simp_all add: w1_def location_search_def location_pathname_def saveToStorage_frame)
  have sv: "saveToStorage h (?a, w) = (Inr (), (?a, w1))"
    using saveToStorage_result [of h "(?a, w)"] saveToStorage_this [of h "(?a, w)"]
    by (cases "saveToStorage h (?a, w)") (simp add: w1_def)
  have run: "handleCallbackToken h (a, w) = (Inr (), (?a, w1\<lparr>url := path @ cl\<rparr>))"
    using tne pne
    by (simp add: handleCallbackToken_def js_defs Let_def get sv l1 clean loc(1)
          replaceState_plain [OF pl])
  have it: "\<not> storage_fault h (store_ops w) \<Longrightarrow> \<not> truthy (user a) \<Longrightarrow>
      items w1 (tokenKey (config a)) = Some ?t"
    using saveToStorage_token_item [of "(?a, w)" h] tne by (simp add: w1_def)
  show ?thesis using it by (simp add: run cl_def)
qed

theorem callback_token_adopted_witness:
  "token (fst (snd (handleCallbackToken (example_host (\<lambda>n. None))
      (new_auth DEFAULT_CONFIG, empty_page\<lparr>url := ''/dashboard?foo=1&token=X&bar=2''\<rparr>)))) = Some ''X''
   \<and> items (snd (snd (handleCallbackToken (example_host (\<lambda>n. None))
      (new_auth DEFAULT_CONFIG, empty_page\<lparr>url := ''/dashboard?foo=1&token=X&bar=2''\<rparr>)))) ''inmapper_auth_token'' = Some ''X''
   \<and> url (snd (snd (handleCallbackToken (example_host (\<lambda>n. None))
      (new_auth DEFAULT_CONFIG, empty_page\<lparr>url := ''/dashboard?foo=1&token=X&bar=2''\<rparr>)))) = ''/dashboard?foo=1&bar=2''"
proof -
  have inner: "\<forall>ys zs. ''foo=1'' = ys @ ''?token='' @ zs \<longrightarrow> zs = []"
  proof (intro allI impI)
    fix ys zs :: string
    assume e: "''foo=1'' = ys @ ''?token='' @ zs"
    then have "CHR ''?'' \<in> set ''foo=1''" by (metis append_Cons in_set_conv_decomp)
    then show "zs = []" by simp
  qed
  show ?thesis
    using callback_token_adopted [where w = "empty_page\<lparr>url := ''/dashboard?foo=1&token=X&bar=2''\<rparr>"
      and path = "''/dashboard''" and pre = "[''foo=1'']" and v = "''X''" and post = "[''bar=2'']"
      and frag = "[]" and a = "new_auth DEFAULT_CONFIG" and h = "example_host (\<lambda>n. None)"] inner
    by (simp add: form_decode_def new_auth_def example_defs plain_path_def)
qed

text \<open>A token parameter whose value is empty is not adopted, by the test
  \<^verbatim>\<open>if (tokenFromUrl)\<close>: nothing is stored and the URL keeps the parameter.\<close>

theorem callback_token_empty_value:
  "token (fst (snd (handleCallbackToken (example_host (\<lambda>n. None))
      (new_auth DEFAULT_CONFIG, empty_page\<lparr>url := ''/dashboard?foo=1&token=&bar=2''\<rparr>)))) = None
   \<and> items (snd (snd (handleCallbackToken (example_host (\<lambda>n. None))
      (new_auth DEFAULT_CONFIG, empty_page\<lparr>url := ''/dashboard?foo=1&token=&bar=2''\<rparr>)))) ''inmapper_auth_token'' = None
   \<and> url (snd (snd (handleCallbackToken (example_host (\<lambda>n. None))
      (new_auth DEFAULT_CONFIG, empty_page\<lparr>url := ''/dashboard?foo=1&token=&bar=2''\<rparr>)))) = ''/dashboard?foo=1&token=&bar=2''"
  by (simp add: run_defs example_defs)

text \<open>Outside the URLs of the theorem the two readers can disagree. A name written
  with a percent escape is a token for \<^verbatim>\<open>URLSearchParams\<close> but not for the regular
  expression, so the token is adopted and stays in the URL; and the regular expression
  also matches \<^verbatim>\<open>?token=\<close> inside the value of an earlier parameter.\<close>

lemma callback_token_encoded_name:
  "token (fst (snd (handleCallbackToken (example_host (\<lambda>n. None))
      (new_auth DEFAULT_CONFIG, empty_page\<lparr>url := ''/dashboard?%74oken=X''\<rparr>)))) = Some ''X''
   \<and> url (snd (snd (handleCallbackToken (example_host (\<lambda>n. None))
      (new_auth DEFAULT_CONFIG, empty_page\<lparr>url := ''/dashboard?%74oken=X''\<rparr>)))) = ''/dashboard?%74oken=X''"
  by (simp add: run_defs example_defs hexval_def char_of_def bit_Suc_0_iff)

lemma callback_token_inside_value:
  "token (fst (snd (handleCallbackToken (example_host (\<lambda>n. None))
      (new_auth DEFAULT_CONFIG, empty_page\<lparr>url := ''/dashboard?next=/a?token=abc&token=X''\<rparr>)))) = Some ''X''
   \<and> url (snd (snd (handleCallbackToken (example_host (\<lambda>n. None))
      (new_auth DEFAULT_CONFIG, empty_page\<lparr>url := ''/dashboard?next=/a?token=abc&token=X''\<rparr>)))) = ''/dashboard?next=/a&token=X''"
  by (simp add: run_defs example_defs)

text \<open>On a path that begins with two slashes the token is adopted and stored, and then
  \<^verbatim>\<open>replaceState\<close> throws. A value that is not UTF-8 is adopted as U+FFFD.\<close>

lemma callback_token_other_origin:
  "fst (handleCallbackToken (example_host (\<lambda>n. None))
      (new_auth DEFAULT_CONFIG, empty_page\<lparr>url := ''//foo?token=X''\<rparr>)) = Inl SecurityError
   \<and> token (fst (snd (handleCallbackToken (example_host (\<lambda>n. None))
      (new_auth DEFAULT_CONFIG, empty_page\<lparr>url := ''//foo?token=X''\<rparr>)))) = Some ''X''
   \<and> url (snd (snd (handleCallbackToken (example_host (\<lambda>n. None))
      (new_auth DEFAULT_CONFIG, empty_page\<lparr>url := ''//foo?token=X''\<rparr>)))) = ''//foo?token=X''"
  by (simp add: run_defs example_defs)

lemma callback_token_replacement_character:
  "token (fst (snd (handleCallbackToken (example_host (\<lambda>n. None))
      (new_auth DEFAULT_CONFIG, empty_page\<lparr>url := ''/dashboard?token=%FF#top''\<rparr>))))
     = Some [CHR 0xEF, CHR 0xBF, CHR 0xBD]
   \<and> url (snd (snd (handleCallbackToken (example_host (\<lambda>n. None))
      (new_auth DEFAULT_CONFIG, empty_page\<lparr>url := ''/dashboard?token=%FF#top''\<rparr>)))) = ''/dashboard''"
  by (simp add: run_defs example_defs hexval_def char_of_def bit_Suc_0_iff)

section \<open>The sixth digit\<close>









lemma handleKeyDown_unreadable:
  "handleKeyDown index ''v'' ctrlKey metaKey None s = s"
  by (simp add: handleKeyDown_def Let_def)




end
